theory Spec2Isabelle
  imports Complex_Main "HOL-Library.Char_ord" "HOL-Library.List_Lexorder" "HOL-Library.Log_Nat"
    "HOL-Library.Multiset"
begin

section \<open>Strings\<close>

text \<open>
  JavaScript strings are modelled as \<^typ>\<open>string\<close> (lists of characters). The model is
  exact for ASCII text: \<open>length\<close>, \<open>slice\<close>, \<open>trim\<close>, \<open>toLowerCase\<close> and the
  regular-expression class \<open>\s\<close> are those of JavaScript on ASCII characters. Text outside
  ASCII (where JavaScript counts UTF-16 code units and knows further white space and case
  pairs) is outside the model.
\<close>

definition is_ws :: "char \<Rightarrow> bool" where
  \<comment> \<open>the ASCII characters of JavaScript's white space (\<open>\s\<close>, \<open>trim\<close>): TAB, LF, VT, FF, CR, SP\<close>
  "is_ws c = (let n = (of_char c :: nat) in (9 \<le> n \<and> n \<le> 13) \<or> n = 32)"

definition to_lower :: "char \<Rightarrow> char" where
  "to_lower c = (let n = (of_char c :: nat) in if 65 \<le> n \<and> n \<le> 90 then char_of (n + 32) else c)"

definition toLowerCase :: "string \<Rightarrow> string" where
  "toLowerCase s = map to_lower s"

definition trim :: "string \<Rightarrow> string" where
  "trim s = rev (dropWhile is_ws (rev (dropWhile is_ws s)))"

definition norm :: "string \<Rightarrow> string" where
  \<comment> \<open>\<open>function norm(s='') { return s.trim().toLowerCase(); }\<close>\<close>
  "norm s = toLowerCase (trim s)"

section \<open>Insertion-ordered maps\<close>

text \<open>
  A JavaScript \<open>Map\<close> iterates in insertion order, and \<open>set\<close> on a key that is present
  replaces the value in place. It is modelled as an association list.
\<close>

fun map_set :: "'k \<Rightarrow> 'v \<Rightarrow> ('k \<times> 'v) list \<Rightarrow> ('k \<times> 'v) list" where
  "map_set k v [] = [(k, v)]"
| "map_set k v (p # m) = (if fst p = k then (k, v) # m else p # map_set k v m)"

definition new_Map :: "('k \<times> 'v) list \<Rightarrow> ('k \<times> 'v) list" where
  \<comment> \<open>\<open>new Map(entries)\<close>: the entries are set one after the other\<close>
  "new_Map entries = foldl (\<lambda>m (k, v). map_set k v m) [] entries"

section \<open>Skill merge (\<open>mergeSkills\<close>)\<close>

record evidence_item =
  artifact_id :: string
  snippet :: string

record skill =
  name :: string
  level :: string
  evidence :: "evidence_item list"

text \<open>
  \<open>const LEVEL_RANK = { beginner: 1, intermediate: 2, advanced: 3 }\<close> is a plain object, so
  \<open>LEVEL_RANK[l]\<close> also finds the members inherited from \<open>Object.prototype\<close>. Such a member is
  a function (for \<open>__proto__\<close>, the prototype object): it is truthy, so \<open>|| 0\<close> keeps it, and
  \<open>>\<close> compares it through its primitive string.
\<close>

definition Object_prototype_keys :: "string list" where
  "Object_prototype_keys =
    [''constructor'', ''__defineGetter__'', ''__defineSetter__'', ''hasOwnProperty'',
     ''__lookupGetter__'', ''__lookupSetter__'', ''isPrototypeOf'', ''propertyIsEnumerable'',
     ''toString'', ''valueOf'', ''__proto__'', ''toLocaleString'']"

definition inherited_text :: "string \<Rightarrow> string" where
  \<comment> \<open>the primitive string of the member of \<open>Object.prototype\<close> named \<open>k\<close>\<close>
  "inherited_text k =
    (if k = ''__proto__'' then ''[object Object]''
     else ''function '' @ (if k = ''constructor'' then ''Object'' else k) @ ''() { [native code] }'')"

datatype js_rank = RankNum nat | RankInherited string

definition LEVEL_RANK :: "string \<Rightarrow> js_rank" where
  \<comment> \<open>\<open>LEVEL_RANK[l] || 0\<close>\<close>
  "LEVEL_RANK l =
    (if l = ''beginner'' then RankNum 1
     else if l = ''intermediate'' then RankNum 2
     else if l = ''advanced'' then RankNum 3
     else if l \<in> set Object_prototype_keys then RankInherited (inherited_text l)
     else RankNum 0)"

fun rank_gt :: "js_rank \<Rightarrow> js_rank \<Rightarrow> bool" where
  \<comment> \<open>\<open>a > b\<close>: numbers by value, two strings by code units, a number and a
      non-numeric string never\<close>
  "rank_gt (RankNum a) (RankNum b) = (a > b)"
| "rank_gt (RankInherited s) (RankInherited t) = (s > t)"
| "rank_gt _ _ = False"

definition evidence_id :: "evidence_item \<Rightarrow> string" where
  \<comment> \<open>the key \<open>`${e?.artifact_id||''}|${snip}`\<close> under which an evidence item is \<open>seen\<close>\<close>
  "evidence_id e = artifact_id e @ ''|'' @ take 240 (snippet e)"

fun merge_evidence :: "string list \<Rightarrow> evidence_item list \<Rightarrow> evidence_item list \<Rightarrow> evidence_item list" where
  \<comment> \<open>the loop \<open>for (const e of [...cur.evidence, ...ev])\<close> with its \<open>seen\<close> and \<open>mergedEv\<close>\<close>
  "merge_evidence seen mergedEv [] = mergedEv"
| "merge_evidence seen mergedEv (e # es) =
    (let snip = take 240 (snippet e);
         ident = evidence_id e;
         fresh = (ident \<notin> set seen);
         seen' = (if fresh then ident # seen else seen);
         mergedEv' = (if fresh then mergedEv @ [\<lparr>artifact_id = artifact_id e, snippet = snip\<rparr>]
                      else mergedEv)
     in if length mergedEv' \<ge> 3 then mergedEv' else merge_evidence seen' mergedEv' es)"

definition merge_step :: "(string \<times> skill) list \<Rightarrow> skill \<Rightarrow> (string \<times> skill) list" where
  \<comment> \<open>one round of \<open>for (const s of (incoming||[]))\<close>\<close>
  "merge_step m s =
    (let key = norm (name s); ev = evidence s in
     case map_of m key of
       Some cur \<Rightarrow>
         let curRank = LEVEL_RANK (level cur);
             incRank = LEVEL_RANK (level s);
             lvl = (if rank_gt incRank curRank then level s else level cur);
             mergedEv = merge_evidence [] [] (evidence cur @ ev)
         in map_set key (cur\<lparr>level := lvl, evidence := mergedEv\<rparr>) m
     | None \<Rightarrow> map_set key (s\<lparr>evidence := take 3 ev\<rparr>) m)"

definition mergeSkills :: "skill list \<Rightarrow> skill list \<Rightarrow> skill list" where
  "mergeSkills base incoming =
    take 120 (map snd (foldl merge_step
      (new_Map (map (\<lambda>s. (norm (name s), s\<lparr>evidence := take 3 (evidence s)\<rparr>)) base))
      incoming))"

subsection \<open>The merge, name by name\<close>

text \<open>
  The loop of \<open>mergeSkills\<close> treats the skills of one normalized name independently of the
  others. \<open>merged_value\<close> is the value that one round stores under the key of \<open>s\<close> when
  the map holds \<open>cur_opt\<close> there (the two branches of \<open>merge_step\<close>), \<open>merge_all\<close> repeats
  it over the incoming skills of one name, and \<open>merged_entry\<close> is the entry that results for
  the name \<open>k\<close>. That \<open>mergeSkills\<close> returns these entries is proved below
  (\<open>mergeSkills_entries\<close>).
\<close>

abbreviation (input) skill_key :: "skill \<Rightarrow> string" where
  "skill_key s \<equiv> norm (name s)"

abbreviation (input) base_entries :: "skill list \<Rightarrow> (string \<times> skill) list" where
  "base_entries base \<equiv> map (\<lambda>s. (norm (name s), s\<lparr>evidence := take 3 (evidence s)\<rparr>)) base"

definition merged_value :: "skill option \<Rightarrow> skill \<Rightarrow> skill" where
  "merged_value cur_opt s =
    (case cur_opt of
       Some cur \<Rightarrow>
         cur\<lparr>level := (if rank_gt (LEVEL_RANK (level s)) (LEVEL_RANK (level cur)) then level s
                        else level cur),
             evidence := merge_evidence [] [] (evidence cur @ evidence s)\<rparr>
     | None \<Rightarrow> s\<lparr>evidence := take 3 (evidence s)\<rparr>)"

definition merge_all :: "skill option \<Rightarrow> skill list \<Rightarrow> skill option" where
  "merge_all start ss = foldl (\<lambda>cur s. Some (merged_value cur s)) start ss"

definition merged_entry :: "skill list \<Rightarrow> skill list \<Rightarrow> string \<Rightarrow> skill" where
  "merged_entry base inc k =
     the (merge_all (map_of (rev (base_entries base)) k) (filter (\<lambda>s. norm (name s) = k) inc))"

definition canonical :: "evidence_item list \<Rightarrow> bool" where
  \<comment> \<open>an evidence list as the merging branch leaves it: no two items with the same
      \<open>seen\<close> key, and no snippet longer than 240 characters\<close>
  "canonical es = (distinct (map evidence_id es) \<and> list_all (\<lambda>e. length (snippet e) \<le> 240) es)"

section \<open>Chunker (\<open>createChunksFromText\<close>)\<close>

record chunk =
  chunk_artifact_id :: string  \<comment> \<open>the field \<open>artifact_id\<close> of a chunk\<close>
  chunk_text :: string  \<comment> \<open>the field \<open>text\<close> of a chunk\<close>

text \<open>
  \<open>excerpt.split(/(?<=[.!?])\s+/)\<close>: a separator is a maximal run of white space that
  directly follows one of \<open>.\<close>, \<open>!\<close>, \<open>?\<close>. The first argument is the piece read so far,
  last character first. A separator at the very end leaves an empty last piece, and the
  empty string splits into one empty piece, as in JavaScript.
\<close>

function split_sentences_from :: "string \<Rightarrow> string \<Rightarrow> string list" where
  "split_sentences_from cur [] = [rev cur]"
| "split_sentences_from cur (c # cs) =
    (if is_ws c \<and> (case cur of [] \<Rightarrow> False | p # _ \<Rightarrow> p \<in> set ''.!?'')
     then rev cur # split_sentences_from [] (dropWhile is_ws cs)
     else split_sentences_from (c # cur) cs)"
  by pat_completeness auto
termination
  by (relation "measure (\<lambda>(cur, s). length s)")
     (auto simp: less_Suc_eq_le length_dropWhile_le)

definition split_sentences :: "string \<Rightarrow> string list" where
  "split_sentences s = split_sentences_from [] s"

fun chunk_loop :: "string \<Rightarrow> nat \<Rightarrow> chunk list \<Rightarrow> string \<Rightarrow> string list \<Rightarrow> chunk list \<times> string" where
  \<comment> \<open>\<open>for (const s of sentences)\<close> with its \<open>break\<close>; returns \<open>chunks\<close> and \<open>buf\<close>\<close>
  "chunk_loop artifactId maxChunks chunks buf [] = (chunks, buf)"
| "chunk_loop artifactId maxChunks chunks buf (s # ss) =
    (let next = (if buf \<noteq> [] then buf @ '' '' @ s else s);
         chunks' = (if length next > 800 \<and> length buf > 120
                    then chunks @ [\<lparr>chunk_artifact_id = artifactId, chunk_text = trim buf\<rparr>]
                    else chunks);
         buf' = (if length next > 800 then s else next)
     in if length chunks' \<ge> maxChunks then (chunks', buf')
        else chunk_loop artifactId maxChunks chunks' buf' ss)"

definition createChunksFromText :: "string \<Rightarrow> string \<Rightarrow> nat \<Rightarrow> nat \<Rightarrow> chunk list" where
  "createChunksFromText txt artifactId maxChunks maxChars =
    (let excerpt = take maxChars txt;
         sentences = split_sentences excerpt;
         (chunks, buf) = chunk_loop artifactId maxChunks [] [] sentences;
         chunks' = (if length buf > 120 \<and> length chunks < maxChunks
                    then chunks @ [\<lparr>chunk_artifact_id = artifactId, chunk_text = trim buf\<rparr>]
                    else chunks)
     in take maxChunks chunks')"

section \<open>Result limit of a recommendation request\<close>

definition is_digit :: "char \<Rightarrow> bool" where
  "is_digit c = (let n = (of_char c :: nat) in 48 \<le> n \<and> n \<le> 57)"

definition digit_val :: "char \<Rightarrow> nat" where
  "digit_val c = of_char c - 48"

definition parse_signed_digits :: "string \<Rightarrow> int option" where
  \<comment> \<open>one optional sign and the longest run of decimal digits; \<open>None\<close> is \<open>NaN\<close>\<close>
  "parse_signed_digits t =
    (let neg = (case t of [] \<Rightarrow> False | c # _ \<Rightarrow> c = CHR ''-'');
         u = (case t of [] \<Rightarrow> [] | c # r \<Rightarrow> if c = CHR ''+'' \<or> c = CHR ''-'' then r else t);
         ds = takeWhile is_digit u;
         v = int (foldl (\<lambda>a c. 10 * a + digit_val c) 0 ds)
     in if ds = [] then None else Some (if neg then - v else v))"

definition parseInt10 :: "string \<Rightarrow> int option" where
  \<comment> \<open>\<open>parseInt(s, 10)\<close>: leading white space is skipped\<close>
  "parseInt10 s = parse_signed_digits (dropWhile is_ws s)"

text \<open>
  The query parameter \<open>req.query.limit\<close> is \<open>None\<close> when absent and a single string
  otherwise.
\<close>

definition limitParam :: "string option \<Rightarrow> string" where
  \<comment> \<open>\<open>String(req.query.limit || 'all').toLowerCase()\<close>; the empty string is falsy\<close>
  "limitParam q = toLowerCase (case q of None \<Rightarrow> ''all'' | Some s \<Rightarrow> if s = [] then ''all'' else s)"

definition wantAll :: "string option \<Rightarrow> bool" where
  "wantAll q = (limitParam q = ''all'')"

definition desiredLimit :: "string option \<Rightarrow> nat \<Rightarrow> int" where
  \<comment> \<open>\<open>wantAll ? JOBS.length : Math.min(parseInt(limitParam, 10) || 10, JOBS.length)\<close>;
      \<open>NaN\<close> and \<open>0\<close> are falsy\<close>
  "desiredLimit q n_jobs =
    (if wantAll q then int n_jobs
     else min (case parseInt10 (limitParam q) of
                 None \<Rightarrow> 10
               | Some k \<Rightarrow> if k = 0 then 10 else k)
              (int n_jobs))"

section \<open>Numbers\<close>

text \<open>
  A number of the program is a double (IEEE 754 binary64). A finite double is modelled by
  the rational it denotes; negative zero is not told apart from zero (the code never divides
  by a score, and JSON writes both as \<open>0\<close>). The value of an arithmetic expression is its
  exact value rounded to the nearest double, a tie going to the double whose significand is
  even: \<open>dbl\<close>. A double has 53 significant bits; below \<open>2 powi - 1022\<close> the doubles are
  subnormal and lie \<open>2 powi - 1074\<close> apart. So \<open>0.7\<close> is \<open>dbl (7 / 10)\<close>, and \<open>a * b\<close> is
  \<open>dbl (a * b)\<close> as long as the result stays below \<open>2 powi 1024\<close>; \<open>to_num\<close> also covers
  the overflow to an infinity.
\<close>

definition round_half_even :: "rat \<Rightarrow> int" where
  \<comment> \<open>to the nearest integer, a half to the even neighbour\<close>
  "round_half_even x =
    (let f = \<lfloor>x\<rfloor>; d = x - of_int f
     in if d < 1 / 2 then f else if 1 / 2 < d then f + 1 else if even f then f else f + 1)"

definition exponent :: "rat \<Rightarrow> int" where
  \<comment> \<open>the \<open>e\<close> with \<open>2 powi e \<le> \<bar>x\<bar> < 2 powi (e + 1)\<close>, for \<open>x \<noteq> 0\<close>\<close>
  "exponent x =
    (let (p, q) = quotient_of \<bar>x\<bar>; e = bitlen p - bitlen q
     in if 2 powi e \<le> \<bar>x\<bar> then e else e - 1)"

definition dbl :: "rat \<Rightarrow> rat" where
  \<comment> \<open>the double nearest to \<open>x\<close>, the exponent not bounded from above\<close>
  "dbl x =
    (if x = 0 then 0
     else let u = 2 powi (max (exponent x) (- 1022) - 52)
          in of_int (round_half_even (x / u)) * u)"

datatype js_num = NaN | NegInf | Fin rat | PosInf

definition to_num :: "rat \<Rightarrow> js_num" where
  \<comment> \<open>the number that an operation with exact result \<open>x\<close> returns: an infinity when the
      rounded result reaches \<open>2 powi 1024\<close> in absolute value\<close>
  "to_num x =
    (let r = dbl x
     in if r \<noteq> 0 \<and> 1024 \<le> exponent r then (if 0 < r then PosInf else NegInf) else Fin r)"

definition Math_round :: "rat \<Rightarrow> int" where
  \<comment> \<open>\<open>Math.round\<close> of a finite double: to the nearest integer, a half upwards; the
      result is a double again\<close>
  "Math_round x = \<lfloor>x + 1 / 2\<rfloor>"

section \<open>Tokens\<close>

definition STOP :: "string list" where
  "STOP = [''a'', ''an'', ''and'', ''the'', ''for'', ''to'', ''in'', ''of'', ''on'', ''with'', ''at'',
     ''as'', ''by'', ''or'', ''be'', ''is'', ''are'', ''am'', ''from'', ''that'', ''this'', ''it'', ''its'',
     ''we'', ''you'', ''they'', ''their'', ''our'', ''your'', ''i'']"

definition Set_add :: "'a \<Rightarrow> 'a list \<Rightarrow> 'a list" where
  \<comment> \<open>\<open>set.add(x)\<close> on a \<open>Set\<close> kept in insertion order\<close>
  "Set_add x s = (if x \<in> set s then s else s @ [x])"

definition new_Set :: "'a list \<Rightarrow> 'a list" where
  \<comment> \<open>\<open>new Set(arr)\<close>: its elements in insertion order\<close>
  "new_Set xs = foldl (\<lambda>s x. Set_add x s) [] xs"

definition uniq :: "'a list \<Rightarrow> 'a list" where
  \<comment> \<open>\<open>const uniq = arr => [...new Set(arr)]\<close>\<close>
  "uniq arr = new_Set arr"

fun join :: "string \<Rightarrow> string list \<Rightarrow> string" where
  \<comment> \<open>\<open>arr.join(sep)\<close>\<close>
  "join sep [] = []"
| "join sep [x] = x"
| "join sep (x # y # ys) = x @ sep @ join sep (y # ys)"

function split_ws_from :: "string \<Rightarrow> string \<Rightarrow> string list" where
  \<comment> \<open>\<open>s.split(/\s+/)\<close>; the first argument is the piece read so far, last character first\<close>
  "split_ws_from cur [] = [rev cur]"
| "split_ws_from cur (c # cs) =
    (if is_ws c then rev cur # split_ws_from [] (dropWhile is_ws cs)
     else split_ws_from (c # cur) cs)"
  by pat_completeness auto
termination
  by (relation "measure (\<lambda>(cur, s). length s)")
     (auto simp: less_Suc_eq_le length_dropWhile_le)

definition token_char :: "char \<Rightarrow> bool" where
  \<comment> \<open>the class \<open>[a-z0-9+#.\- ]\<close>\<close>
  "token_char c =
    (let n = (of_char c :: nat)
     in (97 \<le> n \<and> n \<le> 122) \<or> (48 \<le> n \<and> n \<le> 57) \<or> c \<in> set ''+#.- '')"

definition tokenize :: "string \<Rightarrow> string list" where
  "tokenize s =
    filter (\<lambda>x. x \<noteq> [] \<and> x \<notin> set STOP)
      (split_ws_from [] (map (\<lambda>c. if token_char c then c else CHR '' '') (toLowerCase s)))"

definition jaccard :: "'a list \<Rightarrow> 'a list \<Rightarrow> rat" where
  \<comment> \<open>the arguments are \<open>Set\<close>s (lists without repetition); the two counts are whole
      numbers far below \<open>2 ^ 53\<close>, hence doubles, and \<open>inter / union\<close> is their quotient
      rounded to a double\<close>
  "jaccard aSet bSet =
    (let inter = length (filter (\<lambda>x. x \<in> set bSet) aSet);
         union = length aSet + length bSet - inter
     in if union \<noteq> 0 then dbl (of_nat inter / of_nat union) else 0)"

section \<open>Profile and job catalog\<close>

text \<open>
  A field that is absent in the JSON is modelled by the empty string or the empty list: the
  code reads every field through \<open>|| ''\<close>, \<open>|| []\<close>, \<open>Array.isArray\<close> or \<open>join\<close>, which
  treat both alike.
\<close>

record project =
  proj_title :: string
  proj_summary :: string
  methods :: "string list"
  tech_stack :: "string list"
  outcomes :: "string list"

record artifact =
  art_id :: string
  art_type :: string
  art_title :: string
  text_excerpt :: string

record preferences =
  pref_summary :: string
  goals :: "string list"
  pref_interests :: "string list"
  industries :: "string list"
  role_types :: "string list"
  locations :: "string list"
  work_modes :: "string list"
  company_size :: "string list"
  constraints :: "string list"

record profile_info =
  about :: string
  interests :: "string list"
  preferences :: preferences

record profile =
  session_id :: string
  artifacts :: "artifact list"
  skills :: "skill list"
  projects :: "project list"
  prof_keywords :: "string list"  \<comment> \<open>the field \<open>keywords\<close>\<close>
  profile_info :: profile_info  \<comment> \<open>the field \<open>profile\<close>\<close>
  counts :: "nat \<times> nat"  \<comment> \<open>\<open>{ resume, papers }\<close>\<close>

record job =
  job_id :: string  \<comment> \<open>the field \<open>id\<close>\<close>
  job_title :: string
  company :: string
  location :: string
  description :: string
  job_keywords :: "string list"

definition deriveSkillTokens :: "profile \<Rightarrow> string list" where
  "deriveSkillTokens p =
    (let words =
           concat (map (\<lambda>s. [name s, level s]) (skills p))
           @ concat (map (\<lambda>q. [proj_title q, proj_summary q] @ methods q @ tech_stack q @ outcomes q)
               (projects p))
           @ concat (map (\<lambda>a. [art_title a, art_type a, text_excerpt a]) (artifacts p))
           @ prof_keywords p;
         toks = tokenize (join '' '' words)
     in take 200 (uniq toks))"

definition derivePreferenceTokens :: "profile \<Rightarrow> string list" where
  "derivePreferenceTokens p =
    (let pref = preferences (profile_info p);
         bag = (if about (profile_info p) \<noteq> [] then [about (profile_info p)] else [])
               @ interests (profile_info p)
               @ (if pref_summary pref \<noteq> [] then [pref_summary pref] else [])
               @ goals pref @ pref_interests pref @ industries pref @ role_types pref
               @ locations pref @ work_modes pref @ company_size pref @ constraints pref;
         toks = tokenize (join '' '' bag @ '' '' @ about (profile_info p))
     in take 200 (uniq toks))"

definition jobKeywords :: "job \<Rightarrow> string list" where
  "jobKeywords j =
    uniq (tokenize (join '' '' ([job_title j, company j, location j, description j] @ job_keywords j)))"

section \<open>Lexical prefilter (\<open>prefilterCandidates\<close>)\<close>

text \<open>
  Every number of the prefilter lies between 0 and 100, so no operation overflows and each
  one is its exact result rounded by \<open>dbl\<close>. The comparator \<open>b.composite - a.composite\<close>
  is negative, zero or positive as the exact difference is: the difference of two distinct
  doubles does not round to zero.
\<close>

definition slice0 :: "int \<Rightarrow> 'a list \<Rightarrow> 'a list" where
  \<comment> \<open>\<open>arr.slice(0, n)\<close>: a negative \<open>n\<close> counts from the end\<close>
  "slice0 n xs = (if 0 \<le> n then take (nat n) xs else take (length xs - nat (- n)) xs)"

record candidate =
  job :: job
  baseline_skill :: int
  baseline_preference :: int
  composite :: rat

definition score_job :: "string list \<Rightarrow> string list \<Rightarrow> job \<Rightarrow> candidate" where
  \<comment> \<open>the function mapped over \<open>JOBS\<close>; \<open>sset\<close> and \<open>pset\<close> are \<open>Set\<close>s\<close>
  "score_job sset pset j =
    (let jset = new_Set (jobKeywords j);
         skill = jaccard sset jset;
         pref = jaccard pset jset;
         composite = dbl ((if pref \<noteq> 0 then dbl (dbl (7 / 10) * pref) else 0)
                          + (if skill \<noteq> 0 then dbl (dbl (3 / 10) * skill) else 0))
     in \<lparr>job = j, baseline_skill = Math_round (dbl (skill * 100)),
         baseline_preference = Math_round (dbl (pref * 100)), composite = composite\<rparr>)"

definition prefilterCandidates :: "job list \<Rightarrow> string list \<Rightarrow> string list \<Rightarrow> int \<Rightarrow> candidate list" where
  \<comment> \<open>\<open>JOBS\<close> is the first argument. \<open>Array.prototype.sort\<close> is stable, and the comparator
      \<open>(a,b) => b.composite - a.composite\<close> orders by descending \<open>composite\<close>.\<close>
  "prefilterCandidates JOBS skillTokens prefTokens topN =
    (let sset = new_Set skillTokens;
         pset = new_Set prefTokens
     in slice0 topN (sort_key (\<lambda>c. - composite c) (map (score_job sset pset) JOBS)))"

section \<open>Semantic reranker and its fallback (\<open>rerankWithClaude\<close>)\<close>

text \<open>
  A score of a parsed reply is absent (\<open>Undefined\<close>), a JSON number, or any other JSON value
  (\<open>null\<close>, a boolean, a string, an array, an object). The code only applies \<open>||\<close> and
  \<open>Number(...)\<close> to it, so another value is given by its truthiness and by what \<open>Number\<close>
  makes of it: the string \<open>"abc"\<close> is \<open>Other True NaN\<close>, the string \<open>"50"\<close> is
  \<open>Other True (Fin 50)\<close>, \<open>null\<close> is \<open>Other False (Fin 0)\<close>.
\<close>

datatype js_value = Undefined | Num js_num | Other bool js_num

fun truthy :: "js_value \<Rightarrow> bool" where
  "truthy Undefined = False"
| "truthy (Num n) = (n \<noteq> NaN \<and> n \<noteq> Fin 0)"
| "truthy (Other t n) = t"

fun Number :: "js_value \<Rightarrow> js_num" where
  "Number Undefined = NaN"
| "Number (Num n) = n"
| "Number (Other t n) = n"

fun Math_min :: "js_num \<Rightarrow> js_num \<Rightarrow> js_num" where
  "Math_min NaN y = NaN"
| "Math_min x NaN = NaN"
| "Math_min NegInf y = NegInf"
| "Math_min x NegInf = NegInf"
| "Math_min PosInf y = y"
| "Math_min x PosInf = x"
| "Math_min (Fin a) (Fin b) = Fin (min a b)"

fun Math_max :: "js_num \<Rightarrow> js_num \<Rightarrow> js_num" where
  "Math_max NaN y = NaN"
| "Math_max x NaN = NaN"
| "Math_max PosInf y = PosInf"
| "Math_max x PosInf = PosInf"
| "Math_max NegInf y = y"
| "Math_max x NegInf = x"
| "Math_max (Fin a) (Fin b) = Fin (max a b)"

fun js_scale :: "rat \<Rightarrow> js_num \<Rightarrow> js_num" where
  \<comment> \<open>\<open>c * x\<close> for a positive double \<open>c\<close>\<close>
  "js_scale c (Fin a) = to_num (c * a)"
| "js_scale c x = x"

fun js_plus :: "js_num \<Rightarrow> js_num \<Rightarrow> js_num" where
  "js_plus NaN y = NaN"
| "js_plus x NaN = NaN"
| "js_plus (Fin a) (Fin b) = to_num (a + b)"
| "js_plus (Fin a) y = y"
| "js_plus x (Fin b) = x"
| "js_plus x y = (if x = y then x else NaN)"

fun js_round :: "js_num \<Rightarrow> js_num" where
  \<comment> \<open>\<open>Math.round\<close> on any number\<close>
  "js_round (Fin a) = Fin (of_int (Math_round a))"
| "js_round x = x"

record scores =
  score_preference :: js_num
  score_skill :: js_num
  score_overall :: js_num

record reasons =
  reason_preference :: string
  reason_skill :: string

text \<open>
  A ranked job is \<open>{ ...job, scores, reasons }\<close>. The fields of the job are \<open>None\<close> when the
  spread object has no fields of its own (see \<open>byId\<close> below).
\<close>

record ranked_job =
  job_fields :: "job option"
  scores :: scores
  reasons :: reasons

record match =
  match_job_id :: string  \<comment> \<open>\<open>m.job_id\<close>\<close>
  match_preference :: js_value  \<comment> \<open>\<open>m?.scores?.preference\<close>\<close>
  match_skill :: js_value
  match_overall :: js_value
  match_reason_preference :: string  \<comment> \<open>\<open>m?.reasons?.preference || ''\<close>\<close>
  match_reason_skill :: string

text \<open>
  The reply of the capability as the code reads it: \<open>NotJSON\<close> when \<open>JSON.parse\<close> throws
  (then \<open>parsed = { matches: [] }\<close>), \<open>Matches ms\<close> when \<open>parsed.matches || []\<close> is the array
  \<open>ms\<close>, and \<open>Malformed\<close> when reading or mapping \<open>parsed.matches\<close> throws a \<open>TypeError\<close>
  (the text parses to \<open>null\<close>, or \<open>matches\<close> is not an array).
\<close>

datatype reply = NotJSON | Malformed | Matches "match list"

datatype error = CapabilityError string | TypeError

text \<open>
  What \<open>extractFromResume\<close> and \<open>extractFromPaper\<close> return: the parsed reply with the
  defaults \<open>|| []\<close> and \<open>|| {}\<close> applied. \<open>resume_preferences\<close> is \<open>None\<close> when
  \<open>profile.preferences\<close> is absent.
\<close>

record paper_extraction =
  ex_skills :: "skill list"
  ex_projects :: "project list"
  ex_keywords :: "string list"

record resume_extraction = paper_extraction +
  resume_about :: string
  resume_interests :: "string list"
  resume_preferences :: "preferences option"

text \<open>
  The external capability behind \<open>callClaude\<close>, one function for each of its three uses;
  each returns what the code makes of the reply, or throws (\<open>Inl\<close>). The constant
  \<open>anthropic\<close> of the server is \<open>None\<close> when no key is configured.
\<close>

record claude =
  rerank_call :: "profile \<Rightarrow> candidate list \<Rightarrow> int \<Rightarrow> error + reply"
  extractFromResume :: "string \<Rightarrow> chunk list \<Rightarrow> error + resume_extraction"
  extractFromPaper :: "string \<Rightarrow> chunk list \<Rightarrow> error + paper_extraction"

datatype 'a property = Own 'a | InheritedMember | NoProperty

definition byId :: "job list \<Rightarrow> string \<Rightarrow> job property" where
  \<comment> \<open>\<open>Object.fromEntries(JOBS.map(j => [j.id, j]))[k]\<close>: of two jobs with one id the later
      one stays; a plain object also answers for the members of \<open>Object.prototype\<close>\<close>
  "byId JOBS k =
    (case map_of (rev (map (\<lambda>j. (job_id j, j)) JOBS)) k of
       Some j \<Rightarrow> Own j
     | None \<Rightarrow> if k \<in> set Object_prototype_keys then InheritedMember else NoProperty)"

definition clamp_score :: "js_value \<Rightarrow> js_num" where
  \<comment> \<open>\<open>Math.max(0, Math.min(100, Number(v || 0)))\<close>\<close>
  "clamp_score v = Math_max (Fin 0) (Math_min (Fin 100) (Number (if truthy v then v else Num (Fin 0))))"

definition blend :: "js_num \<Rightarrow> js_num \<Rightarrow> js_num" where
  \<comment> \<open>\<open>Math.round(0.7*preference + 0.3*skill)\<close>\<close>
  "blend preference skill =
    js_round (js_plus (js_scale (dbl (7 / 10)) preference) (js_scale (dbl (3 / 10)) skill))"

definition rerank_match :: "job list \<Rightarrow> match \<Rightarrow> ranked_job option" where
  \<comment> \<open>the function mapped over \<open>parsed.matches\<close>; \<open>None\<close> is \<open>null\<close>, which
      \<open>.filter(Boolean)\<close> removes\<close>
  "rerank_match JOBS m =
    (case byId JOBS (match_job_id m) of
       NoProperty \<Rightarrow> None
     | found \<Rightarrow>
         let preference = clamp_score (match_preference m);
             skill = clamp_score (match_skill m);
             overall = Math_max (Fin 0) (Math_min (Fin 100)
               (Number (if truthy (match_overall m) then match_overall m
                        else Num (blend preference skill))))
         in Some \<lparr>job_fields = (case found of Own j \<Rightarrow> Some j | _ \<Rightarrow> None),
                  scores = \<lparr>score_preference = preference, score_skill = skill, score_overall = overall\<rparr>,
                  reasons = \<lparr>reason_preference = match_reason_preference m,
                             reason_skill = match_reason_skill m\<rparr>\<rparr>)"

definition baseline_entry :: "bool \<Rightarrow> candidate \<Rightarrow> ranked_job" where
  \<comment> \<open>the function mapped over the candidates when \<open>anthropic\<close> is not configured\<close>
  "baseline_entry hasPrefs c =
    (let preference = baseline_preference c;
         skill = baseline_skill c;
         overall = (if hasPrefs then blend (Fin (of_int preference)) (Fin (of_int skill))
                    else Fin (of_int skill))
     in \<lparr>job_fields = Some (job c),
         scores = \<lparr>score_preference = Fin (of_int preference), score_skill = Fin (of_int skill),
                    score_overall = overall\<rparr>,
         reasons = \<lparr>reason_preference = (if hasPrefs then ''Keyword/interest overlap baseline''
                                           else ''No stated preferences; neutral''),
                    reason_skill = ''Skill keyword overlap baseline''\<rparr>\<rparr>)"

definition fallback_entry :: "candidate \<Rightarrow> ranked_job" where
  \<comment> \<open>the function mapped over the candidates when the reply has no usable match\<close>
  "fallback_entry c =
    (let preference = baseline_preference c;
         skill = baseline_skill c;
         overall = blend (Fin (of_int preference)) (Fin (of_int skill))
     in \<lparr>job_fields = Some (job c),
         scores = \<lparr>score_preference = Fin (of_int preference), score_skill = Fin (of_int skill),
                    score_overall = overall\<rparr>,
         reasons = \<lparr>reason_preference = ''Baseline'', reason_skill = ''Baseline''\<rparr>\<rparr>)"

definition parse_reply :: "job list \<Rightarrow> candidate list \<Rightarrow> int \<Rightarrow> match list \<Rightarrow> ranked_job list" where
  \<comment> \<open>from \<open>const out = ...\<close> to the end of \<open>rerankWithClaude\<close>\<close>
  "parse_reply JOBS candidates limit ms =
    (let out = List.map_filter (rerank_match JOBS) ms
     in if out = [] then map fallback_entry (slice0 limit candidates)
        else slice0 limit out)"

definition rerankWithClaude ::
    "claude option \<Rightarrow> job list \<Rightarrow> profile \<Rightarrow> candidate list \<Rightarrow> int \<Rightarrow> error + ranked_job list" where
  \<comment> \<open>\<open>anthropic\<close> and \<open>JOBS\<close> are the first two arguments; \<open>Inl\<close> is an exception\<close>
  "rerankWithClaude anthropic JOBS p candidates limit =
    (let hasPrefs = (length (derivePreferenceTokens p) > 0) in
     case anthropic of
       None \<Rightarrow> Inr (map (baseline_entry hasPrefs) (slice0 limit candidates))
     | Some client \<Rightarrow>
         (case rerank_call client p candidates limit of
            Inl e \<Rightarrow> Inl e
          | Inr NotJSON \<Rightarrow> Inr (parse_reply JOBS candidates limit [])
          | Inr Malformed \<Rightarrow> Inl TypeError
          | Inr (Matches ms) \<Rightarrow> Inr (parse_reply JOBS candidates limit ms)))"

section \<open>The two requests\<close>

datatype form_value = FAbsent | FString string | FArray "form_value list"

fun split_on :: "(char \<Rightarrow> bool) \<Rightarrow> string \<Rightarrow> string \<Rightarrow> string list" where
  \<comment> \<open>\<open>s.split(/[...]/)\<close> for a class of single characters; the second argument is the
      piece read so far, last character first\<close>
  "split_on sep cur [] = [rev cur]"
| "split_on sep cur (c # cs) =
    (if sep c then rev cur # split_on sep [] cs else split_on sep (c # cur) cs)"

fun splitList :: "form_value \<Rightarrow> string list" where
  "splitList FAbsent = []"
| "splitList (FString s) =
    (if s = [] then []
     else filter (\<lambda>x. x \<noteq> []) (map trim (split_on (\<lambda>c. c = CHR '';'' \<or> c = CHR '','') [] s)))"
| "splitList (FArray vs) = concat (map splitList vs)"

fun uniqStrings_loop :: "string list \<Rightarrow> string list \<Rightarrow> string list \<Rightarrow> string list" where
  "uniqStrings_loop seen out [] = out"
| "uniqStrings_loop seen out (s # arr) =
    (let k = norm s
     in if k = [] \<or> k \<in> set seen then uniqStrings_loop seen out arr
        else uniqStrings_loop (k # seen) (out @ [s]) arr)"

definition uniqStrings :: "string list \<Rightarrow> string list" where
  "uniqStrings arr = uniqStrings_loop [] [] arr"

function string_of_nat :: "nat \<Rightarrow> string" where
  \<comment> \<open>a number inside a template string\<close>
  "string_of_nat n =
    (if n < 10 then [char_of (48 + n)] else string_of_nat (n div 10) @ [char_of (48 + n mod 10)])"
  by pat_completeness auto
termination
  by (relation "measure id") auto

declare string_of_nat.simps [simp del]

record upload =
  originalname :: string
  buffer :: string

record process_request =
  req_about :: string  \<comment> \<open>\<open>req.body?.about || ''\<close>\<close>
  pref_locations :: form_value
  pref_work_modes :: form_value
  resume :: "upload option"  \<comment> \<open>\<open>req.files?.resume?.[0]\<close>\<close>
  papers :: "upload list"  \<comment> \<open>\<open>req.files?.papers || []\<close>\<close>
  stamp :: string  \<comment> \<open>the time of the request, as the file name carries it\<close>

datatype stored_file = ProfileJson profile | Text string

text \<open>
  The state a request can read or change: the variable \<open>LAST_PROFILE\<close> and the files of the
  outputs directory, by name. Writing a file is taken to succeed.
\<close>

record server_state =
  LAST_PROFILE :: "profile option"
  files :: "(string \<times> stored_file) list"

text \<open>
  What the server is started with: the client, the flag, the catalog, and the external
  PDF reader (\<open>None\<close> when it throws).
\<close>

record server =
  anthropic :: "claude option"
  SAVE_OUTPUTS :: bool
  JOBS :: "job list"
  pdfParse :: "string \<Rightarrow> string option"

record recommendation =
  profile_terms :: "string list"
  preference_terms :: "string list"
  total_jobs :: nat
  returned :: nat
  matches :: "ranked_job list"

datatype response =
    Failure nat string string  \<comment> \<open>status, \<open>error\<close>, \<open>message\<close>\<close>
  | ProfileResponse profile
  | RecommendResponse recommendation

definition parsePDFBuffer :: "server \<Rightarrow> string \<Rightarrow> string" where
  "parsePDFBuffer srv buf = (case pdfParse srv buf of None \<Rightarrow> [] | Some t \<Rightarrow> t)"

definition resume_artifact :: "server \<Rightarrow> upload \<Rightarrow> artifact \<times> chunk list" where
  "resume_artifact srv resumeFile =
    (let resumeText = parsePDFBuffer srv (buffer resumeFile);
         a1 = \<lparr>art_id = ''a1'', art_type = ''pdf'',
               art_title = (if originalname resumeFile \<noteq> [] then originalname resumeFile else ''resume.pdf''),
               text_excerpt = take 3200 resumeText\<rparr>
     in (a1, createChunksFromText resumeText ''a1'' 6 3200))"

fun paper_artifacts :: "server \<Rightarrow> nat \<Rightarrow> upload list \<Rightarrow> (artifact \<times> chunk list) list" where
  \<comment> \<open>\<open>for (const pf of paperFiles)\<close>; the second argument is \<open>paperIndex\<close> before the round\<close>
  "paper_artifacts srv paperIndex [] = []"
| "paper_artifacts srv paperIndex (pf # pfs) =
    (let paperIndex = paperIndex + 1;
         pid = CHR ''p'' # string_of_nat paperIndex;
         paperText = parsePDFBuffer srv (buffer pf);
         pa = \<lparr>art_id = pid, art_type = ''pdf'',
               art_title = (if originalname pf \<noteq> [] then originalname pf
                            else ''paper_'' @ string_of_nat paperIndex @ ''.pdf''),
               text_excerpt = take 3600 paperText\<rparr>
     in (pa, createChunksFromText paperText pid 6 3600) # paper_artifacts srv paperIndex pfs)"

record extracted =
  finalSkills :: "skill list"
  finalProjects :: "project list"
  finalKeywords :: "string list"
  finalProfile :: profile_info

definition empty_preferences :: preferences where
  "empty_preferences =
    \<lparr>pref_summary = [], goals = [], pref_interests = [], industries = [], role_types = [],
     locations = [], work_modes = [], company_size = [], constraints = []\<rparr>"

definition empty_extracted :: extracted where
  "empty_extracted =
    \<lparr>finalSkills = [], finalProjects = [], finalKeywords = [],
     finalProfile = \<lparr>about = [], interests = [], preferences = empty_preferences\<rparr>\<rparr>"

definition merge_resume :: "extracted \<Rightarrow> resume_extraction \<Rightarrow> extracted" where
  "merge_resume x r =
    \<lparr>finalSkills = mergeSkills (finalSkills x) (ex_skills r),
     finalProjects = finalProjects x @ ex_projects r,
     finalKeywords = uniqStrings (finalKeywords x @ ex_keywords r),
     finalProfile =
       \<lparr>about = resume_about r, interests = uniqStrings (resume_interests r),
        preferences = (case resume_preferences r of
                         Some q \<Rightarrow> q
                       | None \<Rightarrow> preferences (finalProfile x))\<rparr>\<rparr>"

definition merge_paper :: "extracted \<Rightarrow> paper_extraction \<Rightarrow> extracted" where
  "merge_paper x pr =
    x\<lparr>finalSkills := mergeSkills (finalSkills x) (ex_skills pr),
      finalProjects := finalProjects x @ ex_projects pr,
      finalKeywords := uniqStrings (finalKeywords x @ ex_keywords pr)\<rparr>"

fun extract_papers :: "claude \<Rightarrow> extracted \<Rightarrow> (artifact \<times> chunk list) list \<Rightarrow> error + extracted" where
  \<comment> \<open>\<open>for (const a of artifacts)\<close>, skipping \<open>a1\<close>\<close>
  "extract_papers client x [] = Inr x"
| "extract_papers client x ((a, chunks) # rest) =
    (if art_id a = ''a1'' then extract_papers client x rest
     else case extractFromPaper client (art_id a) chunks of
            Inl e \<Rightarrow> Inl e
          | Inr pr \<Rightarrow> extract_papers client (merge_paper x pr) rest)"

definition extract_all :: "claude option \<Rightarrow> string \<Rightarrow> (artifact \<times> chunk list) list \<Rightarrow> error + extracted" where
  \<comment> \<open>the block \<open>if (anthropic) { ... } else { ... }\<close>\<close>
  "extract_all client_opt about_text sources =
    (case client_opt of
       Some client \<Rightarrow>
         (case map_of (map (\<lambda>(a, chunks). (art_id a, chunks)) sources) ''a1'' of
            Some chunks \<Rightarrow>
              (case extractFromResume client about_text chunks of
                 Inl e \<Rightarrow> Inl e
               | Inr r \<Rightarrow> extract_papers client (merge_resume empty_extracted r) sources)
          | None \<Rightarrow> extract_papers client empty_extracted sources)
     | None \<Rightarrow>
         let firstId = (case sources of [] \<Rightarrow> ''a1'' | (a, _) # _ \<Rightarrow> if art_id a \<noteq> [] then art_id a else ''a1'');
             stub = mergeSkills []
               [\<lparr>name = ''Communication'', level = ''intermediate'',
                 evidence = [\<lparr>artifact_id = firstId,
                   snippet = ''Presented results to stakeholders and coordinated cross-team deliverables.''\<rparr>]\<rparr>];
             info = (if about_text \<noteq> []
                     then \<lparr>about = [], interests = take 5 (uniqStrings (tokenize about_text)),
                           preferences = empty_preferences\<lparr>pref_summary := take 140 about_text\<rparr>\<rparr>
                     else finalProfile empty_extracted)
         in Inr \<lparr>finalSkills = stub, finalProjects = [], finalKeywords = [''communication''],
                 finalProfile = info\<rparr>)"

definition explicit_preferences :: "string list \<Rightarrow> string list \<Rightarrow> preferences \<Rightarrow> preferences" where
  \<comment> \<open>the explicit locations and work modes, then the summary built when there is none\<close>
  "explicit_preferences explicitLocations explicitWorkModes q =
    (let q1 = (if explicitLocations \<noteq> []
               then q\<lparr>locations := uniqStrings (locations q @ explicitLocations)\<rparr> else q);
         q2 = (if explicitWorkModes \<noteq> []
               then q1\<lparr>work_modes := uniqStrings (work_modes q1 @ map norm explicitWorkModes)\<rparr> else q1)
     in if pref_summary q2 = []
        then let parts = (if work_modes q2 \<noteq> [] then [join ''/'' (work_modes q2) @ '' work mode''] else [])
                       @ (if locations q2 \<noteq> [] then [''in '' @ join '', '' (locations q2)] else [])
             in q2\<lparr>pref_summary := (if parts \<noteq> [] then ''Prefers '' @ join '' '' parts @ ''.'' else [])\<rparr>
        else q2)"

definition save_outputs :: "string \<Rightarrow> profile \<Rightarrow> (string \<times> stored_file) list \<Rightarrow> (string \<times> stored_file) list" where
  \<comment> \<open>the block \<open>if (SAVE_OUTPUTS) { ... }\<close>; in the time stamp \<open>:\<close> and \<open>.\<close> become \<open>-\<close>\<close>
  "save_outputs time_stamp resp fs =
    (let name1 = ''profile_'' @ map (\<lambda>c. if c = CHR '':'' \<or> c = CHR ''.'' then CHR ''-'' else c) time_stamp @ ''.json'';
         fs1 = map_set name1 (ProfileJson resp) fs;
         fs2 = map_set ''latest.json'' (ProfileJson resp) fs1
     in foldl (\<lambda>f a. map_set (''artifact_'' @ art_id a @ ''.txt'') (Text (text_excerpt a)) f) fs2 (artifacts resp))"

definition process :: "server \<Rightarrow> server_state \<Rightarrow> process_request \<Rightarrow> response \<times> server_state" where
  \<comment> \<open>\<open>app.post('/process', ...)\<close>\<close>
  "process srv st req =
    (let about_text = req_about req;
         explicitLocations = splitList (pref_locations req);
         explicitWorkModes = splitList (pref_work_modes req);
         resumeFile = resume req;
         paperFiles = papers req
     in if resumeFile = None \<and> length paperFiles = 0
        then (Failure 400 ''Please add a resume or at least one paper PDF.'' [], st)
        else
          let sources = (case resumeFile of None \<Rightarrow> [] | Some f \<Rightarrow> [resume_artifact srv f])
                        @ paper_artifacts srv 0 paperFiles
          in case extract_all (anthropic srv) about_text sources of
               Inl e \<Rightarrow>
                 (Failure 500 ''Processing failed''
                    (case e of CapabilityError msg \<Rightarrow> msg | TypeError \<Rightarrow> ''TypeError''), st)
             | Inr x \<Rightarrow>
                 let info = (finalProfile x)\<lparr>preferences :=
                       explicit_preferences explicitLocations explicitWorkModes
                         (preferences (finalProfile x))\<rparr>;
                     resp = \<lparr>session_id = ''profile-with-preferences'',
                             artifacts = map fst sources,
                             skills = finalSkills x,
                             projects = finalProjects x,
                             prof_keywords = finalKeywords x,
                             profile_info = info,
                             counts = (if resumeFile = None then 0 else 1, length paperFiles)\<rparr>;
                     st1 = st\<lparr>LAST_PROFILE := Some resp\<rparr>;
                     st2 = (if SAVE_OUTPUTS srv
                            then st1\<lparr>files := save_outputs (stamp req) resp (files st1)\<rparr> else st1)
                 in (ProfileResponse resp, st2))"

definition recommend :: "server \<Rightarrow> server_state \<Rightarrow> string option \<Rightarrow> response \<times> server_state" where
  \<comment> \<open>\<open>app.get('/jobs/recommend', ...)\<close>; the third argument is \<open>req.query.limit\<close>. A
      \<open>latest.json\<close> that does not hold a profile is read as no profile.\<close>
  "recommend srv st limit_query =
    (let from_file = (case map_of (files st) ''latest.json'' of
                        Some (ProfileJson p) \<Rightarrow> Some p
                      | _ \<Rightarrow> None);
         found = (case from_file of Some p \<Rightarrow> Some p | None \<Rightarrow> LAST_PROFILE st)
     in case found of
          None \<Rightarrow> (Failure 400 ''No profile found. Run /process first.'' [], st)
        | Some p \<Rightarrow>
            if length (JOBS srv) = 0
            then (RecommendResponse \<lparr>profile_terms = [], preference_terms = [], total_jobs = 0,
                    returned = 0, matches = []\<rparr>, st)
            else
              let n = length (JOBS srv);
                  skillTokens = deriveSkillTokens p;
                  prefTokens = derivePreferenceTokens p;
                  preN = (if wantAll limit_query then int n
                          else max 40 (desiredLimit limit_query n * 2));
                  pre = prefilterCandidates (JOBS srv) skillTokens prefTokens preN;
                  ranked =
                    (if wantAll limit_query
                     then let topForAI = slice0 (int (min 60 (length pre))) pre
                          in case rerankWithClaude (anthropic srv) (JOBS srv) p topForAI
                                    (int (length topForAI)) of
                               Inl e \<Rightarrow> Inl e
                             | Inr aiRankedTop \<Rightarrow>
                                 Inr (aiRankedTop @ map fallback_entry (drop (length topForAI) pre))
                     else rerankWithClaude (anthropic srv) (JOBS srv) p pre
                            (desiredLimit limit_query n))
              in case ranked of
                   Inl e \<Rightarrow>
                     (Failure 500 ''Recommendation failed''
                        (case e of CapabilityError msg \<Rightarrow> msg | TypeError \<Rightarrow> ''TypeError''), st)
                 | Inr rs \<Rightarrow>
                     (RecommendResponse \<lparr>profile_terms = take 30 skillTokens,
                        preference_terms = take 30 prefTokens, total_jobs = n,
                        returned = length rs, matches = rs\<rparr>, st))"

section \<open>Ranges of scores\<close>

fun in_range :: "js_num \<Rightarrow> bool" where
  \<comment> \<open>a number of the interval from 0 to 100\<close>
  "in_range (Fin x) = (0 \<le> x \<and> x \<le> 100)"
| "in_range _ = False"

definition non_numeric :: "js_value \<Rightarrow> bool" where
  \<comment> \<open>a value that is present (truthy) and that \<open>Number\<close> turns into \<open>NaN\<close>\<close>
  "non_numeric v = (truthy v \<and> Number v = NaN)"

section \<open>Example data\<close>

definition example_jobs :: "job list" where
  "example_jobs =
    [\<lparr>job_id = ''j1'', job_title = ''Python Developer'', company = ''Acme'', location = ''Boston'',
      description = ''Build data pipelines'', job_keywords = [''python'', ''sql'']\<rparr>,
     \<lparr>job_id = ''j2'', job_title = ''Product Designer'', company = ''Beta'', location = ''Remote'',
      description = ''Design mobile apps'', job_keywords = [''figma'']\<rparr>,
     \<lparr>job_id = ''j3'', job_title = ''Python Developer'', company = ''Acme'', location = ''Boston'',
      description = ''Build data pipelines'', job_keywords = [''python'', ''sql'']\<rparr>]"

definition example_profile :: profile where
  "example_profile =
    \<lparr>session_id = ''profile-with-preferences'',
     artifacts = [],
     skills = [\<lparr>name = ''Python'', level = ''advanced'',
                evidence = [\<lparr>artifact_id = ''a1'', snippet = ''Built data pipelines in Python''\<rparr>]\<rparr>],
     projects = [],
     prof_keywords = [''sql''],
     profile_info = \<lparr>about = ''Looking for remote work'', interests = [],
                      preferences = empty_preferences\<rparr>,
     counts = (1, 0)\<rparr>"

definition example_match :: match where
  "example_match =
    \<lparr>match_job_id = ''j1'', match_preference = Num (Fin 100), match_skill = Num (Fin 100),
     match_overall = Undefined, match_reason_preference = ''remote'', match_reason_skill = ''python''\<rparr>"

definition example_client :: claude where
  "example_client =
    \<lparr>rerank_call = (\<lambda>p candidates limit. Inr (Matches [example_match])),
     extractFromResume = (\<lambda>about_text chunks. Inl (CapabilityError ''unavailable'')),
     extractFromPaper = (\<lambda>paper_id chunks. Inl (CapabilityError ''unavailable''))\<rparr>"

definition tie_jobs :: "job list" where
  \<comment> \<open>for the skill token \<open>python\<close> and the preference tokens \<open>alpha\<close>, \<open>beta\<close>, \<open>gamma\<close>
      the exact scores \<open>0.7 * 3/8 + 0.3 * 1/8\<close> of the first job and \<open>0.3 * 1\<close> of the
      second job are equal\<close>
  "tie_jobs =
    [\<lparr>job_id = ''b'', job_title = ''alpha beta gamma'', company = ''delta'', location = ''epsilon'',
      description = ''zeta eta'', job_keywords = [''python'']\<rparr>,
     \<lparr>job_id = ''a'', job_title = ''python'', company = '''', location = '''',
      description = '''', job_keywords = []\<rparr>]"

definition example_skills_A :: "skill list" where
  "example_skills_A =
    [\<lparr>name = ''Python'', level = ''beginner'',
      evidence = [\<lparr>artifact_id = ''p1'', snippet = ''Used Python for data cleaning''\<rparr>]\<rparr>]"

definition example_skills_B :: "skill list" where
  "example_skills_B =
    [\<lparr>name = '' python '', level = ''advanced'',
      evidence = [\<lparr>artifact_id = ''p2'', snippet = ''Implemented the model in Python''\<rparr>]\<rparr>,
     \<lparr>name = ''SQL'', level = ''intermediate'',
      evidence = [\<lparr>artifact_id = ''p2'', snippet = ''Wrote the SQL queries''\<rparr>]\<rparr>]"

definition example_skills_C :: "skill list" where
  "example_skills_C =
    [\<lparr>name = ''Python'', level = ''beginner'',
      evidence = [\<lparr>artifact_id = ''c1'', snippet = ''scripts''\<rparr>,
                  \<lparr>artifact_id = ''c2'', snippet = ''notebooks''\<rparr>,
                  \<lparr>artifact_id = ''c3'', snippet = ''pipelines''\<rparr>]\<rparr>]"

definition example_skills_D :: "skill list" where
  "example_skills_D =
    [\<lparr>name = ''Python'', level = ''beginner'',
      evidence = [\<lparr>artifact_id = ''d1'', snippet = ''models''\<rparr>,
                  \<lparr>artifact_id = ''d2'', snippet = ''tests''\<rparr>,
                  \<lparr>artifact_id = ''d3'', snippet = ''services''\<rparr>]\<rparr>]"

definition repeated_evidence_skill :: skill where
  "repeated_evidence_skill =
    \<lparr>name = ''Python'', level = ''beginner'',
     evidence = [\<lparr>artifact_id = ''p1'', snippet = ''Used Python for data cleaning''\<rparr>,
                 \<lparr>artifact_id = ''p1'', snippet = ''Used Python for data cleaning''\<rparr>]\<rparr>"

definition many_skills :: "skill list" where
  \<comment> \<open>121 skills with the names \<open>aa\<close>, \<open>ab\<close>, ..., \<open>kk\<close>\<close>
  "many_skills =
    map (\<lambda>(c, d). \<lparr>name = [c, d], level = ''beginner'', evidence = []\<rparr>)
      (List.product ''abcdefghijk'' ''abcdefghijk'')"

section \<open>Facts about strings\<close>

lemma to_lower_eq_iff:
  "to_lower c = d \<longleftrightarrow>
     (if 65 \<le> (of_char c :: nat) \<and> (of_char c :: nat) \<le> 90
      then of_char c + 32 = (of_char d :: nat) else c = d)"
proof -
  have "char_of (of_char c + 32 :: nat) = d \<longleftrightarrow> of_char c + 32 = (of_char d :: nat)"
    if "(of_char c :: nat) \<le> 90"
  proof -
    have "(of_char c + 32 :: nat) mod 256 = of_char c + 32" using that by simp
    then show ?thesis
      by (metis char_of_char of_char_of)
  qed
  then show ?thesis by (auto simp: to_lower_def Let_def)
qed

lemma is_ws_to_lower [simp]: "is_ws (to_lower c) = is_ws c"
  by (auto simp: is_ws_def to_lower_def Let_def)

lemma trim_no_ws:
  assumes "s \<noteq> []" "\<not> is_ws (hd s)" "\<not> is_ws (last s)"
  shows "trim s = s"
proof -
  have "dropWhile is_ws s = s" using assms by (cases s) auto
  moreover have "dropWhile is_ws (rev s) = rev s"
    using assms by (cases "rev s") (auto simp: hd_rev[symmetric])
  ultimately show ?thesis by (simp add: trim_def)
qed

lemma trim_all_ws:
  assumes "\<forall>c \<in> set s. is_ws c"
  shows "trim s = []"
proof -
  have a: "dropWhile is_ws s = []" using assms by simp
  show ?thesis unfolding trim_def a by simp
qed

section \<open>Facts about numbers\<close>

lemma round_half_even_bounds:
  "\<lfloor>x\<rfloor> \<le> round_half_even x" "round_half_even x \<le> \<lfloor>x\<rfloor> + 1"
  by (simp_all add: round_half_even_def Let_def)

lemma round_half_even_of_int [simp]: "round_half_even (of_int n) = n"
  by (simp add: round_half_even_def)

lemma round_half_even_mono:
  assumes "x \<le> y"
  shows "round_half_even x \<le> round_half_even y"
proof (cases "\<lfloor>x\<rfloor> = \<lfloor>y\<rfloor>")
  case True
  then show ?thesis using assms by (auto simp: round_half_even_def Let_def)
next
  case False
  then have "\<lfloor>x\<rfloor> + 1 \<le> \<lfloor>y\<rfloor>" using floor_mono[OF assms] by linarith
  then show ?thesis
    using round_half_even_bounds(2)[of x] round_half_even_bounds(1)[of y] by linarith
qed

lemma power_int_nat: "0 \<le> n \<Longrightarrow> (2::rat) powi n = 2 ^ nat n"
  by (simp add: power_int_def)

lemma bitlen_bounds_rat:
  assumes "0 < p"
  shows "(2::rat) powi (bitlen p - 1) \<le> of_int p" "of_int p < (2::rat) powi bitlen p"
proof -
  have b: "1 \<le> bitlen p" using assms by (simp add: bitlen_alt_def)
  have "2 ^ nat (bitlen p - 1) \<le> p" "p < 2 ^ nat (bitlen p)"
    using bitlen_bounds[OF assms] by auto
  then have "(of_int (2 ^ nat (bitlen p - 1)) :: rat) \<le> of_int p"
    "(of_int p :: rat) < of_int (2 ^ nat (bitlen p))"
    by (simp_all only: of_int_le_iff of_int_less_iff)
  then show "(2::rat) powi (bitlen p - 1) \<le> of_int p" "of_int p < (2::rat) powi bitlen p"
    using b by (simp_all add: power_int_nat)
qed

lemma exponent_bounds:
  assumes "x \<noteq> 0"
  shows "2 powi exponent x \<le> \<bar>x\<bar>" "\<bar>x\<bar> < 2 powi (exponent x + 1)"
proof -
  obtain p q where pq: "quotient_of \<bar>x\<bar> = (p, q)" by force
  have q: "0 < q" using quotient_of_denom_pos[OF pq] .
  have x: "\<bar>x\<bar> = of_int p / of_int q" using quotient_of_div[OF pq] .
  have "0 < \<bar>x\<bar>" using assms by simp
  then have p: "0 < p" unfolding x using q by (simp add: zero_less_divide_iff)
  define e where "e = bitlen p - bitlen q"
  have up: "\<bar>x\<bar> < 2 powi (e + 1)"
  proof -
    have "of_int p / of_int q < (2::rat) powi bitlen p / 2 powi (bitlen q - 1)"
      using bitlen_bounds_rat(2)[OF p] bitlen_bounds_rat(1)[OF q] p
      by (intro frac_less) simp_all
    also have "\<dots> = 2 powi (bitlen p - (bitlen q - 1))"
      by (simp add: power_int_diff)
    finally show ?thesis by (simp add: x e_def algebra_simps)
  qed
  have lo: "2 powi (e - 1) \<le> \<bar>x\<bar>"
  proof -
    have "(2::rat) powi (bitlen p - 1) / 2 powi bitlen q \<le> of_int p / of_int q"
      using bitlen_bounds_rat(1)[OF p] bitlen_bounds_rat(2)[OF q] p q
      by (intro frac_le) simp_all
    moreover have "(2::rat) powi (bitlen p - 1) / 2 powi bitlen q = 2 powi (bitlen p - 1 - bitlen q)"
      by (simp add: power_int_diff)
    ultimately show ?thesis by (simp add: x e_def algebra_simps)
  qed
  have ex: "exponent x = (if 2 powi e \<le> \<bar>x\<bar> then e else e - 1)"
    by (simp add: exponent_def pq e_def Let_def)
  show "2 powi exponent x \<le> \<bar>x\<bar>" using lo by (simp add: ex)
  show "\<bar>x\<bar> < 2 powi (exponent x + 1)" using up by (auto simp: ex)
qed

lemma exponent_mono:
  assumes "x \<noteq> 0" "\<bar>x\<bar> \<le> \<bar>y\<bar>"
  shows "exponent x \<le> exponent y"
proof -
  have y: "y \<noteq> 0" using assms by auto
  have "(2::rat) powi exponent x < 2 powi (exponent y + 1)"
    using exponent_bounds(1)[OF assms(1)] assms(2) exponent_bounds(2)[OF y] by linarith
  moreover have "(2::rat) powi (exponent y + 1) \<le> 2 powi exponent x" if "exponent y + 1 \<le> exponent x"
    using that by (intro power_int_increasing) simp_all
  ultimately show ?thesis by force
qed

lemma dbl_nonneg:
  assumes "0 \<le> x"
  shows "0 \<le> dbl x"
proof -
  have "0 \<le> round_half_even (x / u)" if "0 < u" for u :: rat
  proof -
    have "0 \<le> x / u" using assms that by simp
    then have "0 \<le> \<lfloor>x / u\<rfloor>" by simp
    then show ?thesis using round_half_even_bounds(1)[of "x / u"] by linarith
  qed
  then show ?thesis by (simp add: dbl_def Let_def)
qed

lemma dbl_0 [simp]: "dbl 0 = 0"
  by (simp add: dbl_def)

lemma dbl_mono:
  assumes "0 \<le> x" "x \<le> y"
  shows "dbl x \<le> dbl y"
proof (cases "x = 0")
  case True
  then show ?thesis using assms dbl_nonneg[of y] by simp
next
  case False
  then have x: "0 < x" and y: "0 < y" using assms by auto
  define ex where "ex = max (exponent x) (- 1022)"
  define ey where "ey = max (exponent y) (- 1022)"
  define ux :: rat where "ux = 2 powi (ex - 52)"
  define uy :: rat where "uy = 2 powi (ey - 52)"
  have dx: "dbl x = of_int (round_half_even (x / ux)) * ux"
    using x by (simp add: dbl_def Let_def ux_def ex_def)
  have dy: "dbl y = of_int (round_half_even (y / uy)) * uy"
    using y by (simp add: dbl_def Let_def uy_def ey_def)
  have ux: "0 < ux" and uy: "0 < uy" by (simp_all add: ux_def uy_def)
  have "exponent x \<le> exponent y"
    using x y assms(2) by (intro exponent_mono) simp_all
  then have le: "ex \<le> ey" by (simp add: ex_def ey_def)
  show ?thesis
  proof (cases "ex = ey")
    case True
    then have u: "ux = uy" by (simp add: ux_def uy_def)
    have "x / uy \<le> y / uy" using assms(2) uy by (simp add: divide_right_mono)
    then have "round_half_even (x / uy) \<le> round_half_even (y / uy)"
      by (rule round_half_even_mono)
    then have "(of_int (round_half_even (x / uy)) :: rat) \<le> of_int (round_half_even (y / uy))"
      by simp
    then show ?thesis unfolding dx dy u using uy by (simp add: mult_right_mono)
  next
    case False
    then have lt: "ex < ey" using le by simp
    then have eyy: "ey = exponent y" unfolding ex_def ey_def by linarith
    have "x < 2 powi (exponent x + 1)"
      using exponent_bounds(2)[of x] x by simp
    also have "\<dots> \<le> 2 powi (ex + 1)"
      by (intro power_int_increasing) (simp_all add: ex_def)
    finally have "x / ux < 2 powi (ex + 1) / ux" using ux by (simp add: divide_strict_right_mono)
    also have "2 powi (ex + 1) / ux = 2 powi 53"
      unfolding ux_def by (simp flip: power_int_diff)
    finally have "x / ux \<le> of_int (2 ^ 53)" by (simp add: power_int_def)
    then have "round_half_even (x / ux) \<le> round_half_even (of_int (2 ^ 53))"
      by (rule round_half_even_mono)
    then have "(of_int (round_half_even (x / ux)) :: rat) \<le> of_int (2 ^ 53)"
      unfolding round_half_even_of_int by (simp only: of_int_le_iff)
    then have "dbl x \<le> of_int (2 ^ 53) * ux"
      unfolding dx using ux by (simp only: mult_right_mono less_imp_le)
    also have "of_int (2 ^ 53) * ux = 2 powi 53 * 2 powi (ex - 52)"
      by (simp add: ux_def power_int_def)
    also have "\<dots> = 2 powi (53 + (ex - 52))"
      by (rule power_int_add[symmetric]) simp
    also have "\<dots> = 2 powi (ex + 1)"
      by (simp add: algebra_simps)
    also have "\<dots> \<le> 2 powi ey"
      using lt by (intro power_int_increasing) simp_all
    finally have a: "dbl x \<le> 2 powi ey" .
    have "2 powi ey \<le> y"
      using exponent_bounds(1)[of y] y by (simp add: eyy)
    then have "2 powi ey / uy \<le> y / uy" using uy by (simp add: divide_right_mono)
    moreover have "2 powi ey / uy = 2 powi 52"
      unfolding uy_def by (simp flip: power_int_diff)
    ultimately have "of_int (2 ^ 52) \<le> y / uy" by (simp add: power_int_def)
    then have "round_half_even (of_int (2 ^ 52)) \<le> round_half_even (y / uy)"
      by (rule round_half_even_mono)
    then have "(of_int (2 ^ 52) :: rat) \<le> of_int (round_half_even (y / uy))"
      unfolding round_half_even_of_int by (simp only: of_int_le_iff)
    then have "of_int (2 ^ 52) * uy \<le> dbl y"
      unfolding dy using uy by (simp only: mult_right_mono less_imp_le)
    moreover have "of_int (2 ^ 52) * uy = 2 powi 52 * 2 powi (ey - 52)"
      by (simp add: uy_def power_int_def)
    moreover have "2 powi 52 * 2 powi (ey - 52) = (2::rat) powi (52 + (ey - 52))"
      by (rule power_int_add[symmetric]) simp
    ultimately have b: "2 powi ey \<le> dbl y" by simp
    show ?thesis using a b by linarith
  qed
qed

lemma exponent_less:
  assumes "x \<noteq> 0" "\<bar>x\<bar> < 2 powi n"
  shows "exponent x < n"
proof -
  have "(2::rat) powi exponent x < 2 powi n"
    using exponent_bounds(1)[OF assms(1)] assms(2) by linarith
  moreover have "(2::rat) powi n \<le> 2 powi exponent x" if "n \<le> exponent x"
    using that by (intro power_int_increasing) simp_all
  ultimately show ?thesis by force
qed

lemma dbl_representable:
  assumes "\<bar>m\<bar> < 2 ^ 53" "- 1074 \<le> k"
  shows "dbl (of_int m * 2 powi k) = of_int m * 2 powi k"
proof (cases "m = 0")
  case True
  then show ?thesis by simp
next
  case False
  define r :: rat where "r = of_int m * 2 powi k"
  have r0: "r \<noteq> 0" using False by (simp add: r_def)
  have "\<bar>r\<bar> = of_int \<bar>m\<bar> * 2 powi k"
    by (simp add: r_def abs_mult)
  also have "\<dots> < of_int (2 ^ 53) * 2 powi k"
    using assms(1) by (intro mult_strict_right_mono) (simp_all only: of_int_less_iff zero_less_power_int zero_less_numeral)
  also have "of_int (2 ^ 53) * 2 powi k = (2::rat) powi 53 * 2 powi k"
    by (simp add: power_int_def)
  also have "\<dots> = 2 powi (53 + k)"
    by (rule power_int_add[symmetric]) simp
  finally have "exponent r < 53 + k" using r0 by (intro exponent_less)
  define K where "K = max (exponent r) (- 1022) - 52"
  have E: "K \<le> k" using \<open>exponent r < 53 + k\<close> assms(2) unfolding K_def by linarith
  define d where "d = nat (k - K)"
  have k: "k = K + int d" using E by (simp add: d_def)
  have "(2::rat) powi k = 2 powi K * 2 powi (int d)"
    unfolding k by (rule power_int_add) simp
  then have split: "r = of_int (m * 2 ^ d) * 2 powi K"
    by (simp add: r_def)
  have "r / 2 powi K = of_int (m * 2 ^ d)"
    by (subst split) simp
  then have "round_half_even (r / 2 powi K) = m * 2 ^ d"
    by (simp only: round_half_even_of_int)
  then have "dbl r = of_int (m * 2 ^ d) * 2 powi K"
    using r0 by (simp add: dbl_def Let_def K_def del: of_int_mult of_int_power)
  also have "\<dots> = r" by (rule split[symmetric])
  finally show ?thesis by (simp only: r_def)
qed

lemma round_half_even_minus: "round_half_even (- x) = - round_half_even x"
proof (cases "x \<in> \<int>")
  case True
  then obtain n where "x = of_int n" by (auto elim: Ints_cases)
  then have "- x = of_int (- n)" by simp
  then show ?thesis unfolding \<open>x = of_int n\<close> by (simp only: round_half_even_of_int)
next
  case False
  then have ne: "x \<noteq> of_int \<lfloor>x\<rfloor>" by (metis Ints_of_int)
  then have f: "\<lfloor>- x\<rfloor> = - \<lfloor>x\<rfloor> - 1"
    by (simp add: floor_minus ceiling_altdef)
  show ?thesis
    using ne unfolding round_half_even_def Let_def f by (auto simp: algebra_simps)
qed

lemma exponent_minus [simp]: "exponent (- x) = exponent x"
  by (simp add: exponent_def)

lemma dbl_minus: "dbl (- x) = - dbl x"
  by (simp add: dbl_def Let_def round_half_even_minus)

lemma dbl_form_pos:
  assumes "0 < x"
  shows "\<exists>m k. dbl x = of_int m * 2 powi k \<and> \<bar>m\<bar> < 2 ^ 53 \<and> - 1074 \<le> k"
proof -
  define E where "E = max (exponent x) (- 1022)"
  define u :: rat where "u = 2 powi (E - 52)"
  define m where "m = round_half_even (x / u)"
  have u: "0 < u" by (simp add: u_def)
  have dx: "dbl x = of_int m * u"
    using assms by (simp add: dbl_def Let_def u_def E_def m_def)
  have "x < 2 powi (exponent x + 1)" using exponent_bounds(2)[of x] assms by simp
  also have "\<dots> \<le> 2 powi (E + 1)" by (intro power_int_increasing) (simp_all add: E_def)
  finally have "x / u < 2 powi (E + 1) / u" using u by (simp add: divide_strict_right_mono)
  also have "2 powi (E + 1) / u = 2 powi 53" unfolding u_def by (simp flip: power_int_diff)
  finally have "x / u \<le> of_int (2 ^ 53)" by (simp add: power_int_def)
  then have "m \<le> round_half_even (of_int (2 ^ 53))"
    unfolding m_def by (rule round_half_even_mono)
  then have m_le: "m \<le> 2 ^ 53" by (simp only: round_half_even_of_int)
  have "0 \<le> x / u" using assms u by simp
  then have "round_half_even (of_int 0) \<le> m"
    unfolding m_def by (intro round_half_even_mono) simp
  then have m_ge: "0 \<le> m" by (simp only: round_half_even_of_int)
  show ?thesis
  proof (cases "m = 2 ^ 53")
    case True
    have "dbl x = of_int (2 ^ 52) * (2 powi 1 * 2 powi (E - 52))"
      unfolding dx True u_def by simp
    also have "2 powi 1 * 2 powi (E - 52) = (2::rat) powi (1 + (E - 52))"
      by (rule power_int_add[symmetric]) simp
    finally have "dbl x = of_int (2 ^ 52) * 2 powi (E - 51)" by (simp add: algebra_simps)
    moreover have "- 1074 \<le> E - 51" by (simp add: E_def)
    moreover have "\<bar>2 ^ 52 :: int\<bar> < 2 ^ 53" by simp
    ultimately show ?thesis by blast
  next
    case False
    then have "\<bar>m\<bar> < 2 ^ 53" using m_le m_ge by simp
    moreover have "- 1074 \<le> E - 52" by (simp add: E_def)
    ultimately show ?thesis using dx unfolding u_def by blast
  qed
qed

lemma dbl_idem [simp]: "dbl (dbl x) = dbl x"
proof -
  have pos: "dbl (dbl y) = dbl y" if y: "0 < y" for y
  proof -
    obtain m k where "dbl y = of_int m * 2 powi k" "\<bar>m\<bar> < 2 ^ 53" "- 1074 \<le> k"
      using dbl_form_pos[OF y] by blast
    then show ?thesis using dbl_representable by simp
  qed
  consider "0 < x" | "x = 0" | "0 < - x" by linarith
  then show ?thesis
  proof cases
    case 1 then show ?thesis by (rule pos)
  next
    case 2 then show ?thesis by simp
  next
    case 3
    have "dbl (dbl (- x)) = dbl (- x)" using 3 by (rule pos)
    then show ?thesis by (simp add: dbl_minus)
  qed
qed

lemma dbl_mono_general:
  assumes "x \<le> y"
  shows "dbl x \<le> dbl y"
proof -
  consider "0 \<le> x" | "x < 0" "0 \<le> y" | "y < 0" by linarith
  then show ?thesis
  proof cases
    case 1 then show ?thesis using assms by (rule dbl_mono)
  next
    case 2
    have "0 \<le> dbl (- x)" using 2(1) by (intro dbl_nonneg) simp
    then have "dbl x \<le> 0" by (simp add: dbl_minus)
    then show ?thesis using dbl_nonneg[OF 2(2)] by linarith
  next
    case 3
    have "dbl (- y) \<le> dbl (- x)" using 3 assms by (intro dbl_mono) simp_all
    then show ?thesis by (simp add: dbl_minus)
  qed
qed

lemma round_half_even_error: "\<bar>of_int (round_half_even z) - z\<bar> \<le> 1 / 2"
proof -
  have "of_int \<lfloor>z\<rfloor> \<le> z" "z < of_int \<lfloor>z\<rfloor> + 1" by linarith+
  then show ?thesis by (auto simp: round_half_even_def Let_def abs_le_iff)
qed

lemma dbl_error:
  assumes "\<bar>x\<bar> < 2"
  shows "\<bar>dbl x - x\<bar> \<le> 1 / 2 ^ 53"
proof (cases "x = 0")
  case True
  then show ?thesis by simp
next
  case False
  define K where "K = max (exponent x) (- 1022) - 52"
  define u :: rat where "u = 2 powi K"
  have u: "0 < u" by (simp add: u_def)
  have "exponent x < 1" using False assms by (intro exponent_less) simp_all
  then have "K \<le> - 52" by (simp add: K_def)
  then have "u \<le> 2 powi (- 52)" unfolding u_def by (intro power_int_increasing) simp_all
  then have u52: "u \<le> 1 / 2 ^ 52" by (simp add: power_int_def field_simps)
  have "dbl x - x = (of_int (round_half_even (x / u)) - x / u) * u"
    using False u by (simp add: dbl_def Let_def K_def u_def field_simps)
  then have "\<bar>dbl x - x\<bar> = \<bar>of_int (round_half_even (x / u)) - x / u\<bar> * u"
    using u by (simp add: abs_mult)
  also have "\<dots> \<le> 1 / 2 * (1 / 2 ^ 52)"
    using round_half_even_error[of "x / u"] u u52 by (intro mult_mono) simp_all
  finally show ?thesis by simp
qed

lemma dbl_le:
  assumes "0 \<le> x" "x \<le> y" "dbl y = y"
  shows "dbl x \<le> y"
  using dbl_mono[OF assms(1,2)] assms(3) by simp

lemma to_num_Fin:
  assumes "0 \<le> x" "x \<le> 2 ^ 1023"
  shows "to_num x = Fin (dbl x)"
proof -
  have "dbl (2 ^ 1023) = (2 ^ 1023 :: rat)"
    using dbl_representable[of 1 1023] by (simp add: power_int_def)
  then have "dbl x \<le> 2 ^ 1023" using assms by (intro dbl_le)
  moreover have "(2 ^ 1023 :: rat) < 2 ^ 1024" by (intro power_strict_increasing) simp_all
  moreover have "0 \<le> dbl x" using assms(1) by (rule dbl_nonneg)
  ultimately have "\<bar>dbl x\<bar> < 2 powi 1024" by (simp add: power_int_def)
  then have "exponent (dbl x) < 1024" if "dbl x \<noteq> 0"
    using that by (intro exponent_less)
  then show ?thesis by (auto simp: to_num_def Let_def)
qed

lemma dbl_whole:
  "dbl 1 = 1" "dbl 100 = 100"
  using dbl_representable[of 1 0] dbl_representable[of 100 0] by simp_all

lemma dbl_constants:
  "0 \<le> dbl (7 / 10)" "dbl (7 / 10) \<le> 1" "0 \<le> dbl (3 / 10)" "dbl (3 / 10) \<le> 1"
  by (simp_all add: dbl_nonneg dbl_le dbl_whole)

lemma dbl_products:
  "dbl (dbl (7 / 10) * 100) = 70" "dbl (dbl (3 / 10) * 100) = 30"
  "dbl (dbl (7 / 10) + dbl (3 / 10)) = 1" "dbl (3 / 10) \<le> 1 / 2"
  by code_simp+

lemma scaled_bounds:
  assumes "0 \<le> c" "c \<le> 1" "0 \<le> a" "a \<le> 100"
  shows "0 \<le> c * a" "c * a \<le> 100" "0 \<le> dbl (c * a)" "dbl (c * a) \<le> 100"
proof -
  show a: "0 \<le> c * a" using assms by simp
  have "c * a \<le> 1 * a" using assms by (intro mult_right_mono) simp_all
  then show b: "c * a \<le> 100" using assms(4) by simp
  show "0 \<le> dbl (c * a)" using a by (rule dbl_nonneg)
  show "dbl (c * a) \<le> 100" using a b by (intro dbl_le) (simp_all add: dbl_whole)
qed

lemma small_le_huge: "x \<le> 200 \<Longrightarrow> x \<le> (2 ^ 1023 :: rat)"
proof -
  have "(2 ^ 8 :: rat) \<le> 2 ^ 1023" by (intro power_increasing) simp_all
  then show "x \<le> 200 \<Longrightarrow> x \<le> (2 ^ 1023 :: rat)" by simp
qed

lemma blend_Fin:
  assumes "0 \<le> a" "a \<le> 100" "0 \<le> b" "b \<le> 100"
  shows "blend (Fin a) (Fin b)
    = Fin (of_int (Math_round (dbl (dbl (dbl (7 / 10) * a) + dbl (dbl (3 / 10) * b)))))"
proof -
  note pa = scaled_bounds[OF dbl_constants(1,2) assms(1,2)]
  note pb = scaled_bounds[OF dbl_constants(3,4) assms(3,4)]
  have 1: "to_num (dbl (7 / 10) * a) = Fin (dbl (dbl (7 / 10) * a))"
    using pa(1,2) by (intro to_num_Fin small_le_huge) simp_all
  have 2: "to_num (dbl (3 / 10) * b) = Fin (dbl (dbl (3 / 10) * b))"
    using pb(1,2) by (intro to_num_Fin small_le_huge) simp_all
  have 3: "to_num (dbl (dbl (7 / 10) * a) + dbl (dbl (3 / 10) * b))
      = Fin (dbl (dbl (dbl (7 / 10) * a) + dbl (dbl (3 / 10) * b)))"
    using pa(3,4) pb(3,4) by (intro to_num_Fin small_le_huge) simp_all
  show ?thesis by (simp add: blend_def 1 2 3)
qed

lemma blend_in_range:
  assumes "in_range a" "in_range b"
  shows "in_range (blend a b)"
proof -
  obtain x y where a: "a = Fin x" and b: "b = Fin y"
    using assms by (cases a; cases b) simp_all
  have x: "0 \<le> x" "x \<le> 100" and y: "0 \<le> y" "y \<le> 100" using assms by (simp_all add: a b)
  define s where "s = dbl (dbl (dbl (7 / 10) * x) + dbl (dbl (3 / 10) * y))"
  have px: "0 \<le> dbl (dbl (7 / 10) * x)" "dbl (dbl (7 / 10) * x) \<le> 70"
  proof -
    show "0 \<le> dbl (dbl (7 / 10) * x)" using x dbl_constants by (intro dbl_nonneg) simp
    have "dbl (dbl (7 / 10) * x) \<le> dbl (dbl (7 / 10) * 100)"
      using x dbl_constants by (intro dbl_mono mult_left_mono) simp_all
    then show "dbl (dbl (7 / 10) * x) \<le> 70" by (simp only: dbl_products)
  qed
  have py: "0 \<le> dbl (dbl (3 / 10) * y)" "dbl (dbl (3 / 10) * y) \<le> 30"
  proof -
    show "0 \<le> dbl (dbl (3 / 10) * y)" using y dbl_constants by (intro dbl_nonneg) simp
    have "dbl (dbl (3 / 10) * y) \<le> dbl (dbl (3 / 10) * 100)"
      using y dbl_constants by (intro dbl_mono mult_left_mono) simp_all
    then show "dbl (dbl (3 / 10) * y) \<le> 30" by (simp only: dbl_products)
  qed
  have "0 \<le> s" unfolding s_def using px(1) py(1) by (intro dbl_nonneg) simp
  moreover have "s \<le> 100" unfolding s_def using px py by (intro dbl_le) (simp_all add: dbl_whole)
  ultimately have "0 \<le> Math_round s" "Math_round s \<le> 100"
    unfolding Math_round_def by (simp_all add: floor_le_iff le_floor_iff)
  then have "in_range (Fin (of_int (Math_round s)))" by simp
  then show ?thesis unfolding a b s_def blend_Fin[OF x y] .
qed

section \<open>Evidence snippets of inserted skills\<close>

text \<open>
  C8. The claim: every evidence snippet of every skill returned by \<open>mergeSkills\<close> has at
  most 240 characters. Only the branch that merges into a skill already present truncates
  (\<open>.slice(0,240)\<close>); a skill whose name is new is stored with its snippets as they came.
  Merging one new skill whose snippet has 241 characters into the empty list returns that
  snippet with all its 241 characters.
\<close>

theorem mergeSkills_new_skill_long_snippet:
  "map (\<lambda>s. map (\<lambda>e. length (snippet e)) (evidence s))
     (mergeSkills []
        [\<lparr>name = ''x'', level = ''beginner'',
          evidence = [\<lparr>artifact_id = ''a1'', snippet = replicate 241 (CHR ''a'')\<rparr>]\<rparr>])
   = [[241]]"
  by (simp add: mergeSkills_def new_Map_def merge_step_def norm_def trim_def toLowerCase_def
      is_ws_def to_lower_def)

section \<open>Chunks of a long sentence and of blank text\<close>

lemma split_sentences_from_no_ws:
  "\<forall>c \<in> set s. \<not> is_ws c \<Longrightarrow> split_sentences_from cur s = [rev cur @ s]"
  by (induction s arbitrary: cur) auto

lemma ws_not_punct: "is_ws c \<Longrightarrow> c \<notin> set ''.!?''"
  by (auto simp: is_ws_def)

lemma split_sentences_from_all_ws:
  "\<forall>c \<in> set cur \<union> set s. is_ws c \<Longrightarrow> split_sentences_from cur s = [rev cur @ s]"
proof (induction s arbitrary: cur)
  case Nil
  then show ?case by simp
next
  case (Cons c cs)
  have "\<not> (case cur of [] \<Rightarrow> False | p # _ \<Rightarrow> p \<in> set ''.!?'')"
    using Cons.prems ws_not_punct by (cases cur) auto
  moreover have "split_sentences_from (c # cur) cs = [rev (c # cur) @ cs]"
    using Cons.prems by (intro Cons.IH) auto
  ultimately show ?case by simp
qed

lemma createChunksFromText_length:
  "length (createChunksFromText txt artifactId maxChunks maxChars) \<le> maxChunks"
  by (simp add: createChunksFromText_def Let_def split: prod.splits)

text \<open>
  C4. The claim: every chunk of \<open>createChunksFromText\<close> has at most 800 characters, every
  chunk but the last at least 120, the chunks follow the order of the sentences, and there
  are at most \<open>maxChunks\<close> of them. The count is bounded (\<open>createChunksFromText_length\<close>),
  but the 800 characters bound how far sentences are joined, not one sentence: a sentence
  longer than that becomes a chunk as it is. A text of 900 letters without punctuation,
  with the arguments the server uses, gives one chunk of 900 characters.
\<close>

theorem createChunksFromText_long_sentence:
  "map (\<lambda>c. length (chunk_text c))
     (createChunksFromText (replicate 900 (CHR ''a'')) ''a1'' 6 3200) = [900]"
proof -
  have nws: "\<not> is_ws (CHR ''a'')" by (simp add: is_ws_def)
  have "split_sentences (replicate 900 (CHR ''a'')) = [replicate 900 (CHR ''a'')]"
    unfolding split_sentences_def using nws by (subst split_sentences_from_no_ws) auto
  moreover have "trim (replicate 900 (CHR ''a'')) = replicate 900 (CHR ''a'')"
    using nws by (intro trim_no_ws) (auto simp: last_replicate)
  ultimately show ?thesis
    by (simp add: createChunksFromText_def)
qed

text \<open>
  C5. The claim: a text that is empty or only white space gives no chunk. The buffer is
  measured before it is trimmed, so white space counts towards the 120 characters: a text
  of 121 spaces gives one chunk, whose text is empty.
\<close>

theorem createChunksFromText_blank_text:
  "createChunksFromText (replicate 121 (CHR '' '')) ''a1'' 6 3200
     = [\<lparr>chunk_artifact_id = ''a1'', chunk_text = []\<rparr>]"
proof -
  have ws: "is_ws (CHR '' '')" by (simp add: is_ws_def)
  have "split_sentences (replicate 121 (CHR '' '')) = [replicate 121 (CHR '' '')]"
    unfolding split_sentences_def using ws by (subst split_sentences_from_all_ws) auto
  moreover have "trim (replicate 121 (CHR '' '')) = []"
    using ws by (intro trim_all_ws) auto
  ultimately show ?thesis
    by (simp add: createChunksFromText_def)
qed

section \<open>The result limit\<close>

lemma is_digit_to_lower [simp]: "is_digit (to_lower c) = is_digit c"
  by (auto simp: is_digit_def to_lower_def Let_def)

lemma to_lower_digit: "is_digit c \<Longrightarrow> to_lower c = c"
  by (auto simp: is_digit_def to_lower_def Let_def)

lemma to_lower_sign [simp]:
  "to_lower c = CHR ''-'' \<longleftrightarrow> c = CHR ''-''" "to_lower c = CHR ''+'' \<longleftrightarrow> c = CHR ''+''"
  by (auto simp: to_lower_eq_iff)

lemma dropWhile_ws_lower: "dropWhile is_ws (map to_lower s) = map to_lower (dropWhile is_ws s)"
  by (induction s) auto

lemma takeWhile_digit_lower: "takeWhile is_digit (map to_lower s) = takeWhile is_digit s"
  by (induction s) (auto simp: to_lower_digit)

lemma parseInt10_toLowerCase: "parseInt10 (toLowerCase s) = parseInt10 s"
proof -
  have "parse_signed_digits (map to_lower t) = parse_signed_digits t" for t
    by (cases t) (simp_all add: parse_signed_digits_def takeWhile_digit_lower to_lower_digit)
  then show ?thesis
    by (simp add: parseInt10_def toLowerCase_def dropWhile_ws_lower)
qed

text \<open>
  C10. The claim: a limit parameter that is present and not the string \<open>all\<close> gives the
  minimum of the parsed integer and the catalog size, with 10 in place of a parsed 0 or
  NaN; an absent parameter behaves as \<open>all\<close>. The parameter is compared after
  \<open>toLowerCase\<close>, and an empty parameter is falsy: \<open>ALL\<close> and the empty string ask for all
  jobs too. For every other parameter the claim holds.
\<close>

theorem desiredLimit_cases:
  "desiredLimit None n = int n
   \<and> desiredLimit (Some []) n = int n
   \<and> (toLowerCase s = ''all'' \<longrightarrow> desiredLimit (Some s) n = int n)
   \<and> (s \<noteq> [] \<and> toLowerCase s \<noteq> ''all'' \<longrightarrow>
        desiredLimit (Some s) n =
          min (case parseInt10 s of None \<Rightarrow> 10 | Some k \<Rightarrow> if k = 0 then 10 else k) (int n))"
proof -
  have "toLowerCase ''all'' = ''all''" by code_simp
  then show ?thesis
    using parseInt10_toLowerCase[of s]
    by (auto simp: desiredLimit_def wantAll_def limitParam_def)
qed

theorem desiredLimit_cases_witness:
  "desiredLimit (Some ''All'') 25 = 25 \<and> desiredLimit (Some ''7'') 25 = 7
   \<and> desiredLimit (Some ''0'') 25 = 10 \<and> desiredLimit (Some ''many'') 25 = 10
   \<and> desiredLimit (Some ''40'') 25 = 25"
proof -
  have a: "toLowerCase ''All'' = ''all''" by code_simp
  have b: "\<And>s. s = ''7'' \<or> s = ''0'' \<or> s = ''many'' \<or> s = ''40''
              \<Longrightarrow> s \<noteq> [] \<and> toLowerCase s \<noteq> ''all''"
    by (auto simp: toLowerCase_def to_lower_eq_iff)
  have p: "parseInt10 ''7'' = Some 7" "parseInt10 ''0'' = Some 0"
    "parseInt10 ''many'' = None" "parseInt10 ''40'' = Some 40"
    by code_simp+
  show ?thesis
    using desiredLimit_cases[of 25 "''All''"] desiredLimit_cases[of 25 "''7''"]
      desiredLimit_cases[of 25 "''0''"] desiredLimit_cases[of 25 "''many''"]
      desiredLimit_cases[of 25 "''40''"] a b p
    by simp
qed

theorem desiredLimit_uppercase_all_counterexample:
  "\<not> (\<forall>s n. s \<noteq> ''all'' \<longrightarrow>
        desiredLimit (Some s) n =
          min (case parseInt10 s of None \<Rightarrow> 10 | Some k \<Rightarrow> if k = 0 then 10 else k) (int n))"
proof
  assume "\<forall>s n. s \<noteq> ''all'' \<longrightarrow>
        desiredLimit (Some s) n =
          min (case parseInt10 s of None \<Rightarrow> 10 | Some k \<Rightarrow> if k = 0 then 10 else k) (int n)"
  then have "desiredLimit (Some ''ALL'') 11 =
          min (case parseInt10 ''ALL'' of None \<Rightarrow> 10 | Some k \<Rightarrow> if k = 0 then 10 else k) (int 11)"
    by simp
  moreover have "parseInt10 ''ALL'' = None"
    by code_simp
  moreover have "desiredLimit (Some ''ALL'') 11 = 11"
    by code_simp
  ultimately show False by simp
qed

section \<open>Rejected requests\<close>

text \<open>
  C9. A request to build a profile that carries neither a resume nor a paper is answered
  with status 400 and leaves the state as it was, \<open>LAST_PROFILE\<close> and the files alike; a
  request for recommendations when no profile is stored, neither in \<open>latest.json\<close> nor in
  \<open>LAST_PROFILE\<close>, is answered with status 400.
\<close>

theorem rejected_requests:
  "(resume req = None \<and> papers req = [] \<longrightarrow>
      process srv st req = (Failure 400 ''Please add a resume or at least one paper PDF.'' [], st))
   \<and> (LAST_PROFILE st = None \<and> map_of (files st) ''latest.json'' = None \<longrightarrow>
      recommend srv st limit_query = (Failure 400 ''No profile found. Run /process first.'' [], st))"
  by (simp add: process_def recommend_def)

theorem rejected_requests_witness:
  "process \<lparr>anthropic = None, SAVE_OUTPUTS = True, JOBS = example_jobs, pdfParse = Some\<rparr>
      \<lparr>LAST_PROFILE = None, files = []\<rparr>
      \<lparr>req_about = ''data science'', pref_locations = FString ''Boston'', pref_work_modes = FAbsent,
        resume = None, papers = [], stamp = ''2025-09-13T10:00:00.000Z''\<rparr>
     = (Failure 400 ''Please add a resume or at least one paper PDF.'' [],
        \<lparr>LAST_PROFILE = None, files = []\<rparr>)
   \<and> recommend \<lparr>anthropic = None, SAVE_OUTPUTS = True, JOBS = example_jobs, pdfParse = Some\<rparr>
      \<lparr>LAST_PROFILE = None, files = []\<rparr> (Some ''5'')
     = (Failure 400 ''No profile found. Run /process first.'' [], \<lparr>LAST_PROFILE = None, files = []\<rparr>)"
  using rejected_requests[of
      "\<lparr>req_about = ''data science'', pref_locations = FString ''Boston'', pref_work_modes = FAbsent,
        resume = None, papers = [], stamp = ''2025-09-13T10:00:00.000Z''\<rparr>"
      "\<lparr>anthropic = None, SAVE_OUTPUTS = True, JOBS = example_jobs, pdfParse = Some\<rparr>"
      "\<lparr>LAST_PROFILE = None, files = []\<rparr>" "Some ''5''"]
  by simp

section \<open>Reranking without the capability\<close>

text \<open>
  C1. The claim: without the capability, \<open>rerankWithClaude\<close> returns the first \<open>limit\<close>
  candidates with the lexical baselines as preference and skill scores, and with the
  preference score as overall score when the profile has preference tokens, else the skill
  score. The code blends also here: with preference tokens the overall score is
  \<open>Math.round(0.7*preference + 0.3*skill)\<close>, in double arithmetic; for baselines between 0
  and 100 that is \<open>Math.round\<close> of the rounded sum of the two rounded products (baselines
  6 and 1 give 4). The rest holds, and \<open>slice(0, limit)\<close> is the first \<open>limit\<close> candidates
  when \<open>limit\<close> is not negative.
\<close>

theorem rerank_unconfigured:
  "rerankWithClaude None catalog p candidates limit =
     Inr (map (\<lambda>c. \<lparr>job_fields = Some (job c),
                      scores = \<lparr>score_preference = Fin (of_int (baseline_preference c)),
                                score_skill = Fin (of_int (baseline_skill c)),
                                score_overall =
                                  (if derivePreferenceTokens p \<noteq> []
                                   then blend (Fin (of_int (baseline_preference c)))
                                          (Fin (of_int (baseline_skill c)))
                                   else Fin (of_int (baseline_skill c)))\<rparr>,
                      reasons = reasons (baseline_entry (derivePreferenceTokens p \<noteq> []) c)\<rparr>)
            (slice0 limit candidates))
   \<and> (0 \<le> limit \<longrightarrow> slice0 limit candidates = take (nat limit) candidates)
   \<and> (\<forall>c \<in> set candidates.
         0 \<le> baseline_preference c \<and> baseline_preference c \<le> 100
         \<and> 0 \<le> baseline_skill c \<and> baseline_skill c \<le> 100 \<longrightarrow>
         blend (Fin (of_int (baseline_preference c))) (Fin (of_int (baseline_skill c)))
           = Fin (of_int (Math_round (dbl (dbl (dbl (7 / 10) * of_int (baseline_preference c))
                                          + dbl (dbl (3 / 10) * of_int (baseline_skill c)))))))"
proof (intro conjI ballI impI)
  show "rerankWithClaude None catalog p candidates limit =
     Inr (map (\<lambda>c. \<lparr>job_fields = Some (job c),
                      scores = \<lparr>score_preference = Fin (of_int (baseline_preference c)),
                                score_skill = Fin (of_int (baseline_skill c)),
                                score_overall =
                                  (if derivePreferenceTokens p \<noteq> []
                                   then blend (Fin (of_int (baseline_preference c)))
                                          (Fin (of_int (baseline_skill c)))
                                   else Fin (of_int (baseline_skill c)))\<rparr>,
                      reasons = reasons (baseline_entry (derivePreferenceTokens p \<noteq> []) c)\<rparr>)
            (slice0 limit candidates))"
    by (simp add: rerankWithClaude_def baseline_entry_def Let_def)
next
  assume "0 \<le> limit"
  then show "slice0 limit candidates = take (nat limit) candidates"
    by (simp add: slice0_def)
next
  fix c
  assume "0 \<le> baseline_preference c \<and> baseline_preference c \<le> 100
         \<and> 0 \<le> baseline_skill c \<and> baseline_skill c \<le> 100"
  then show "blend (Fin (of_int (baseline_preference c))) (Fin (of_int (baseline_skill c)))
           = Fin (of_int (Math_round (dbl (dbl (dbl (7 / 10) * of_int (baseline_preference c))
                                          + dbl (dbl (3 / 10) * of_int (baseline_skill c))))))"
    by (intro blend_Fin) simp_all
qed

theorem rerank_unconfigured_witness:
  "rerankWithClaude None example_jobs example_profile
     [\<lparr>job = hd example_jobs, baseline_skill = 1, baseline_preference = 6, composite = 1 / 32\<rparr>,
      \<lparr>job = last example_jobs, baseline_skill = 1, baseline_preference = 0, composite = 1 / 64\<rparr>] 1
   = Inr [\<lparr>job_fields = Some (hd example_jobs),
           scores = \<lparr>score_preference = Fin 6, score_skill = Fin 1, score_overall = Fin 4\<rparr>,
           reasons = \<lparr>reason_preference = ''Keyword/interest overlap baseline'',
                      reason_skill = ''Skill keyword overlap baseline''\<rparr>\<rparr>]
   \<and> slice0 1
       [\<lparr>job = hd example_jobs, baseline_skill = 1, baseline_preference = 6, composite = 1 / 32\<rparr>,
        \<lparr>job = last example_jobs, baseline_skill = 1, baseline_preference = 0, composite = 1 / 64\<rparr>]
     = [\<lparr>job = hd example_jobs, baseline_skill = 1, baseline_preference = 6, composite = 1 / 32\<rparr>]
   \<and> blend (Fin 6) (Fin 1) = Fin 4
   \<and> dbl (dbl (dbl (7 / 10) * 6) + dbl (dbl (3 / 10) * 1)) < 9 / 2"
proof -
  let ?c1 = "\<lparr>job = hd example_jobs, baseline_skill = 1, baseline_preference = 6, composite = 1 / 32\<rparr>"
  let ?c2 = "\<lparr>job = last example_jobs, baseline_skill = 1, baseline_preference = 0, composite = 1 / 64\<rparr>"
  note T = rerank_unconfigured[of example_jobs example_profile "[?c1, ?c2]" 1]
  have v: "dbl (dbl (dbl (7 / 10) * 6) + dbl (dbl (3 / 10) * 1)) = 5066549580791807 / 1125899906842624"
    by code_simp
  have r: "Fin (of_int (Math_round (dbl (dbl (dbl (7 / 10) * of_int (baseline_preference ?c1))
                                          + dbl (dbl (3 / 10) * of_int (baseline_skill ?c1))))))
      = Fin 4"
    by code_simp
  have m: "?c1 \<in> set [?c1, ?c2]" by simp
  have h: "0 \<le> baseline_preference ?c1 \<and> baseline_preference ?c1 \<le> 100
         \<and> 0 \<le> baseline_skill ?c1 \<and> baseline_skill ?c1 \<le> 100"
    by simp
  have a: "rerankWithClaude None example_jobs example_profile [?c1, ?c2] 1
      = Inr [\<lparr>job_fields = Some (hd example_jobs),
           scores = \<lparr>score_preference = Fin 6, score_skill = Fin 1, score_overall = Fin 4\<rparr>,
           reasons = \<lparr>reason_preference = ''Keyword/interest overlap baseline'',
                      reason_skill = ''Skill keyword overlap baseline''\<rparr>\<rparr>]"
    by (rule trans[OF conjunct1[OF T]]) code_simp
  have b: "slice0 1 [?c1, ?c2] = [?c1]"
    by (rule trans[OF mp[OF conjunct1[OF conjunct2[OF T]]]]) simp_all
  have "blend (Fin (of_int (baseline_preference ?c1))) (Fin (of_int (baseline_skill ?c1))) = Fin 4"
    by (rule trans[OF mp[OF bspec[OF conjunct2[OF conjunct2[OF T]] m] h] r])
  then have c: "blend (Fin 6) (Fin 1) = Fin 4"
    by simp
  have d: "dbl (dbl (dbl (7 / 10) * 6) + dbl (dbl (3 / 10) * 1)) < 9 / 2"
    unfolding v by simp
  show ?thesis using a b c d by (intro conjI)
qed

theorem rerank_unconfigured_overall_counterexample:
  "derivePreferenceTokens example_profile \<noteq> []
   \<and> map (\<lambda>r. (map_option job_id (job_fields r), score_preference (scores r),
                score_skill (scores r), score_overall (scores r)))
       (projr (rerankWithClaude None example_jobs example_profile
          (prefilterCandidates example_jobs (deriveSkillTokens example_profile)
             (derivePreferenceTokens example_profile) 40) 2))
     = [(Some ''j2'', Fin 10, Fin 0, Fin 7), (Some ''j1'', Fin 0, Fin 22, Fin 7)]"
  by code_simp

section \<open>Scores of a parsed reply\<close>

lemma clamp_score_falsy: "\<not> truthy v \<Longrightarrow> clamp_score v = Fin 0"
  by (simp add: clamp_score_def)

lemma clamp_in_range: "n \<noteq> NaN \<Longrightarrow> in_range (Math_max (Fin 0) (Math_min (Fin 100) n))"
  by (cases n) auto

lemma clamp_score_in_range: "\<not> non_numeric v \<Longrightarrow> in_range (clamp_score v)"
  by (auto simp: clamp_score_def non_numeric_def intro: clamp_in_range)

lemma blend_not_NaN: "in_range a \<Longrightarrow> in_range b \<Longrightarrow> blend a b \<noteq> NaN"
  using blend_in_range[of a b] by auto

lemma byId_Own:
  assumes "k \<in> job_id ` set catalog"
  shows "\<exists>j \<in> set catalog. job_id j = k \<and> byId catalog k = Own j"
proof -
  have "k \<in> fst ` set (rev (map (\<lambda>j. (job_id j, j)) catalog))"
    using assms by (force simp: image_iff)
  then obtain j where j: "map_of (rev (map (\<lambda>j. (job_id j, j)) catalog)) k = Some j"
    by (metis weak_map_of_SomeI map_of_eq_None_iff not_None_eq)
  then have "(k, j) \<in> set (rev (map (\<lambda>j. (job_id j, j)) catalog))"
    by (rule map_of_SomeD)
  then have "j \<in> set catalog" "job_id j = k" by auto
  then show ?thesis using j by (auto simp: byId_def)
qed

lemma byId_NoProperty:
  assumes "k \<notin> job_id ` set catalog" and "k \<notin> set Object_prototype_keys"
  shows "byId catalog k = NoProperty"
proof -
  have "k \<notin> fst ` set (rev (map (\<lambda>j. (job_id j, j)) catalog))"
    using assms(1) by (force simp: image_iff)
  then have "map_of (rev (map (\<lambda>j. (job_id j, j)) catalog)) k = None"
    by (metis map_of_eq_None_iff)
  then show ?thesis using assms(2) by (simp add: byId_def)
qed

lemma map_filter_origin: "r \<in> set (List.map_filter f xs) \<Longrightarrow> \<exists>x \<in> set xs. f x = Some r"
  by (auto simp: List.map_filter_def)

lemma set_slice0: "set (slice0 n xs) \<subseteq> set xs"
  by (auto simp: slice0_def dest: in_set_takeD)

lemma rerank_parsed_origin:
  assumes "rerank_call client p candidates limit = Inr (Matches ms)"
    and "List.map_filter (rerank_match catalog) ms \<noteq> []"
    and "rerankWithClaude (Some client) catalog p candidates limit = Inr rs"
    and "r \<in> set rs"
  shows "\<exists>x \<in> set ms. rerank_match catalog x = Some r"
proof -
  have "rs = slice0 limit (List.map_filter (rerank_match catalog) ms)"
    using assms(1,2,3) by (simp add: rerankWithClaude_def parse_reply_def Let_def)
  then have "r \<in> set (List.map_filter (rerank_match catalog) ms)"
    using assms(4) set_slice0 by fastforce
  then show ?thesis by (rule map_filter_origin)
qed

text \<open>
  C6. The claim: a match whose job id is not in the catalog is dropped; a missing or
  non-numeric preference, skill or overall score becomes 0; and every score returned lies
  between 0 and 100. The code does not give a missing overall score the value 0 but the
  blend \<open>Math.round(0.7*preference + 0.3*skill)\<close> of the two other scores, in double
  arithmetic (preference 6 and skill 1 give 4). What holds:
  every entry returned from a reply with a usable match comes from one of its matches; a
  match is dropped when its job id is neither in the catalog nor the name of a member of
  \<open>Object.prototype\<close>; a match of a catalog job is kept with that job, a missing
  preference or skill score is 0, a missing overall score is the blend, and the scores lie
  between 0 and 100 when no score is a present value that is not a number. (A present
  value that \<open>Number\<close> turns into \<open>NaN\<close> stays \<open>NaN\<close>, and a job id such as
  \<open>constructor\<close> is not dropped; the theorem says nothing about either.)
\<close>

theorem rerank_match_scores:
  "(rerank_call client p candidates limit = Inr (Matches ms)
      \<and> List.map_filter (rerank_match catalog) ms \<noteq> []
      \<and> rerankWithClaude (Some client) catalog p candidates limit = Inr rs
      \<longrightarrow> (\<forall>r \<in> set rs. \<exists>x \<in> set ms. rerank_match catalog x = Some r))
   \<and> (match_job_id m \<notin> job_id ` set catalog \<and> match_job_id m \<notin> set Object_prototype_keys
      \<longrightarrow> rerank_match catalog m = None)
   \<and> (match_job_id m \<in> job_id ` set catalog \<longrightarrow>
        (\<exists>r j. rerank_match catalog m = Some r \<and> job_fields r = Some j
           \<and> j \<in> set catalog \<and> job_id j = match_job_id m
           \<and> (match_preference m = Undefined \<longrightarrow> score_preference (scores r) = Fin 0)
           \<and> (match_skill m = Undefined \<longrightarrow> score_skill (scores r) = Fin 0)
           \<and> (match_overall m = Undefined \<longrightarrow>
                score_overall (scores r) =
                  Math_max (Fin 0) (Math_min (Fin 100)
                    (blend (score_preference (scores r)) (score_skill (scores r)))))
           \<and> (\<not> non_numeric (match_preference m) \<longrightarrow> in_range (score_preference (scores r)))
           \<and> (\<not> non_numeric (match_skill m) \<longrightarrow> in_range (score_skill (scores r)))
           \<and> (\<not> non_numeric (match_preference m) \<and> \<not> non_numeric (match_skill m)
                \<and> \<not> non_numeric (match_overall m) \<longrightarrow> in_range (score_overall (scores r)))))"
proof (intro conjI impI ballI)
  fix r
  assume "rerank_call client p candidates limit = Inr (Matches ms)
      \<and> List.map_filter (rerank_match catalog) ms \<noteq> []
      \<and> rerankWithClaude (Some client) catalog p candidates limit = Inr rs"
    and "r \<in> set rs"
  then show "\<exists>x \<in> set ms. rerank_match catalog x = Some r"
    using rerank_parsed_origin by blast
next
  assume "match_job_id m \<notin> job_id ` set catalog \<and> match_job_id m \<notin> set Object_prototype_keys"
  then show "rerank_match catalog m = None"
    by (simp add: rerank_match_def byId_NoProperty)
next
  assume "match_job_id m \<in> job_id ` set catalog"
  then obtain j where j: "j \<in> set catalog" "job_id j = match_job_id m"
    "byId catalog (match_job_id m) = Own j"
    using byId_Own by blast
  let ?p = "clamp_score (match_preference m)"
  let ?s = "clamp_score (match_skill m)"
  let ?o = "Math_max (Fin 0) (Math_min (Fin 100)
               (Number (if truthy (match_overall m) then match_overall m else Num (blend ?p ?s))))"
  let ?r = "\<lparr>job_fields = Some j,
             scores = \<lparr>score_preference = ?p, score_skill = ?s, score_overall = ?o\<rparr>,
             reasons = \<lparr>reason_preference = match_reason_preference m,
                        reason_skill = match_reason_skill m\<rparr>\<rparr>"
  have r: "rerank_match catalog m = Some ?r"
    using j(3) by (simp add: rerank_match_def Let_def)
  have o: "in_range ?o"
    if "\<not> non_numeric (match_preference m)" "\<not> non_numeric (match_skill m)"
       "\<not> non_numeric (match_overall m)"
  proof (cases "truthy (match_overall m)")
    case True
    then show ?thesis using that(3) by (auto simp: non_numeric_def intro: clamp_in_range)
  next
    case False
    have "blend ?p ?s \<noteq> NaN"
      using that(1,2) by (intro blend_not_NaN clamp_score_in_range)
    then show ?thesis using False by (auto intro: clamp_in_range)
  qed
  show "\<exists>r j. rerank_match catalog m = Some r \<and> job_fields r = Some j
           \<and> j \<in> set catalog \<and> job_id j = match_job_id m
           \<and> (match_preference m = Undefined \<longrightarrow> score_preference (scores r) = Fin 0)
           \<and> (match_skill m = Undefined \<longrightarrow> score_skill (scores r) = Fin 0)
           \<and> (match_overall m = Undefined \<longrightarrow>
                score_overall (scores r) =
                  Math_max (Fin 0) (Math_min (Fin 100)
                    (blend (score_preference (scores r)) (score_skill (scores r)))))
           \<and> (\<not> non_numeric (match_preference m) \<longrightarrow> in_range (score_preference (scores r)))
           \<and> (\<not> non_numeric (match_skill m) \<longrightarrow> in_range (score_skill (scores r)))
           \<and> (\<not> non_numeric (match_preference m) \<and> \<not> non_numeric (match_skill m)
                \<and> \<not> non_numeric (match_overall m) \<longrightarrow> in_range (score_overall (scores r)))"
    apply (rule exI[of _ ?r], rule exI[of _ j])
    using r j(1,2) o by (simp add: clamp_score_falsy clamp_score_in_range)
qed

theorem rerank_match_scores_witness:
  "rerankWithClaude (Some example_client) example_jobs example_profile [] 5
     = Inr [\<lparr>job_fields = Some (hd example_jobs),
             scores = \<lparr>score_preference = Fin 100, score_skill = Fin 100, score_overall = Fin 100\<rparr>,
             reasons = \<lparr>reason_preference = ''remote'', reason_skill = ''python''\<rparr>\<rparr>]
   \<and> (\<exists>x \<in> set [example_match]. rerank_match example_jobs x =
         Some \<lparr>job_fields = Some (hd example_jobs),
             scores = \<lparr>score_preference = Fin 100, score_skill = Fin 100, score_overall = Fin 100\<rparr>,
             reasons = \<lparr>reason_preference = ''remote'', reason_skill = ''python''\<rparr>\<rparr>)
   \<and> (\<exists>r. rerank_match example_jobs example_match = Some r
          \<and> in_range (score_preference (scores r)) \<and> in_range (score_skill (scores r))
          \<and> in_range (score_overall (scores r))
          \<and> score_overall (scores r) =
                  Math_max (Fin 0) (Math_min (Fin 100)
                    (blend (score_preference (scores r)) (score_skill (scores r)))))
   \<and> rerank_match example_jobs (example_match\<lparr>match_job_id := ''j9''\<rparr>) = None
   \<and> map_option (\<lambda>r. score_overall (scores r))
        (rerank_match example_jobs
           (example_match\<lparr>match_preference := Num (Fin 6), match_skill := Num (Fin 1)\<rparr>))
       = Some (Fin 4)"
proof -
  let ?r = "\<lparr>job_fields = Some (hd example_jobs),
             scores = \<lparr>score_preference = Fin 100, score_skill = Fin 100, score_overall = Fin 100\<rparr>,
             reasons = \<lparr>reason_preference = ''remote'', reason_skill = ''python''\<rparr>\<rparr>"
  note T1 = conjunct1[OF rerank_match_scores]
  note T2 = conjunct1[OF conjunct2[OF rerank_match_scores]]
  note T3 = conjunct2[OF conjunct2[OF rerank_match_scores]]
  have call: "rerank_call example_client example_profile [] 5 = Inr (Matches [example_match])"
    by (simp add: example_client_def)
  have out: "List.map_filter (rerank_match example_jobs) [example_match] \<noteq> []"
    by code_simp
  have res: "rerankWithClaude (Some example_client) example_jobs example_profile [] 5 = Inr [?r]"
    by code_simp
  have "\<forall>r \<in> set [?r]. \<exists>x \<in> set [example_match]. rerank_match example_jobs x = Some r"
    using T1[of example_client example_profile "[]" 5 "[example_match]" example_jobs "[?r]"]
      call out res by blast
  then have first: "\<exists>x \<in> set [example_match]. rerank_match example_jobs x = Some ?r"
    by simp
  have a: "match_job_id example_match \<in> job_id ` set example_jobs"
    by (simp add: example_match_def example_jobs_def)
  have b: "match_overall example_match = Undefined" "\<not> non_numeric (match_preference example_match)"
    "\<not> non_numeric (match_skill example_match)" "\<not> non_numeric (match_overall example_match)"
    by (simp_all add: example_match_def non_numeric_def)
  have third: "\<exists>r. rerank_match example_jobs example_match = Some r
          \<and> in_range (score_preference (scores r)) \<and> in_range (score_skill (scores r))
          \<and> in_range (score_overall (scores r))
          \<and> score_overall (scores r) =
                  Math_max (Fin 0) (Math_min (Fin 100)
                    (blend (score_preference (scores r)) (score_skill (scores r))))"
    using mp[OF T3[of example_match example_jobs] a] b by blast
  have c: "match_job_id (example_match\<lparr>match_job_id := ''j9''\<rparr>) \<notin> job_id ` set example_jobs
      \<and> match_job_id (example_match\<lparr>match_job_id := ''j9''\<rparr>) \<notin> set Object_prototype_keys"
    by (simp add: example_jobs_def Object_prototype_keys_def)
  have second: "rerank_match example_jobs (example_match\<lparr>match_job_id := ''j9''\<rparr>) = None"
    using mp[OF T2[of "example_match\<lparr>match_job_id := ''j9''\<rparr>" example_jobs] c] .
  have fourth: "map_option (\<lambda>r. score_overall (scores r))
        (rerank_match example_jobs
           (example_match\<lparr>match_preference := Num (Fin 6), match_skill := Num (Fin 1)\<rparr>))
       = Some (Fin 4)"
    by code_simp
  show ?thesis
    using res first third second fourth by (intro conjI)
qed

theorem rerank_match_default_counterexample:
  "match_job_id example_match = ''j1'' \<and> match_overall example_match = Undefined
   \<and> map_option (\<lambda>r. score_overall (scores r)) (rerank_match example_jobs example_match)
       = Some (Fin 100)
   \<and> map_option (\<lambda>r. score_preference (scores r))
        (rerank_match example_jobs (example_match\<lparr>match_preference := Other True NaN\<rparr>)) = Some NaN"
  by code_simp

section \<open>Ranking of the lexical prefilter\<close>

lemma new_Set_fold:
  "distinct acc \<Longrightarrow> distinct (foldl (\<lambda>s x. Set_add x s) acc xs)
     \<and> set (foldl (\<lambda>s x. Set_add x s) acc xs) = set acc \<union> set xs"
  by (induction xs arbitrary: acc) (auto simp: Set_add_def)

lemma distinct_new_Set [simp]: "distinct (new_Set xs)"
  using new_Set_fold[of "[]" xs] by (simp add: new_Set_def)

lemma set_new_Set [simp]: "set (new_Set xs) = set xs"
  using new_Set_fold[of "[]" xs] by (simp add: new_Set_def)

lemma new_Set_Nil [simp]: "new_Set [] = []"
  by (simp add: new_Set_def)

lemma inter_le_right:
  assumes "distinct a"
  shows "length (filter (\<lambda>x. x \<in> set b) a) \<le> length b"
proof -
  have "length (filter (\<lambda>x. x \<in> set b) a) = card (set (filter (\<lambda>x. x \<in> set b) a))"
    using assms by (metis distinct_card distinct_filter)
  also have "\<dots> \<le> card (set b)" by (intro card_mono) auto
  also have "\<dots> \<le> length b" by (rule card_length)
  finally show ?thesis .
qed

lemma jaccard_nonneg: "0 \<le> jaccard a b"
  by (simp add: jaccard_def Let_def dbl_nonneg)

lemma jaccard_le_1:
  assumes "distinct a"
  shows "jaccard a b \<le> 1"
proof -
  define i where "i = length (filter (\<lambda>x. x \<in> set b) a)"
  define u where "u = length a + length b - i"
  have "i \<le> length b" unfolding i_def using assms by (rule inter_le_right)
  moreover have "i \<le> length a" unfolding i_def by simp
  ultimately have iu: "i \<le> u" unfolding u_def by linarith
  have j: "jaccard a b = (if u \<noteq> 0 then dbl (of_nat i / of_nat u) else 0)"
    by (simp add: jaccard_def Let_def i_def u_def)
  show ?thesis
  proof (cases "u = 0")
    case True
    then show ?thesis by (simp add: j)
  next
    case False
    then have "(of_nat i :: rat) / of_nat u \<le> 1"
      using iu by (simp add: divide_le_eq_1)
    then have "dbl (of_nat i / of_nat u) \<le> 1"
      by (intro dbl_le) (simp_all add: dbl_whole)
    then show ?thesis using False by (simp add: j)
  qed
qed

lemma jaccard_empty [simp]: "jaccard [] b = 0"
  by (simp add: jaccard_def)

lemma composite_score_job:
  "composite (score_job sset pset j) =
     dbl (dbl (dbl (7 / 10) * jaccard pset (new_Set (jobKeywords j)))
          + dbl (dbl (3 / 10) * jaccard sset (new_Set (jobKeywords j))))"
  by (simp add: score_job_def Let_def)

lemma job_score_job [simp]: "job (score_job sset pset j) = j"
  by (simp add: score_job_def Let_def)

lemma term_bounds:
  assumes "0 \<le> c" "dbl c = c" "0 \<le> x" "x \<le> 1"
  shows "0 \<le> dbl (c * x)" "dbl (c * x) \<le> c"
proof -
  show "0 \<le> dbl (c * x)" using assms by (intro dbl_nonneg) simp
  have "c * x \<le> c * 1" using assms by (intro mult_left_mono) simp_all
  then show "dbl (c * x) \<le> c" using assms by (intro dbl_le) simp_all
qed

lemma composite_bounds:
  assumes "distinct sset" "distinct pset"
  shows "0 \<le> composite (score_job sset pset j) \<and> composite (score_job sset pset j) \<le> 1"
proof -
  let ?p = "jaccard pset (new_Set (jobKeywords j))"
  let ?s = "jaccard sset (new_Set (jobKeywords j))"
  have r: "0 \<le> ?p" "?p \<le> 1" "0 \<le> ?s" "?s \<le> 1"
    using assms by (simp_all add: jaccard_nonneg jaccard_le_1)
  note p = term_bounds[OF dbl_constants(1) dbl_idem r(1,2)]
  note s = term_bounds[OF dbl_constants(3) dbl_idem r(3,4)]
  have "0 \<le> dbl (dbl (dbl (7 / 10) * ?p) + dbl (dbl (3 / 10) * ?s))"
    using p(1) s(1) by (intro dbl_nonneg) simp
  moreover have "dbl (dbl (dbl (7 / 10) * ?p) + dbl (dbl (3 / 10) * ?s))
      \<le> dbl (dbl (7 / 10) + dbl (3 / 10))"
    using p s by (intro dbl_mono) simp_all
  ultimately show ?thesis unfolding composite_score_job by (simp add: dbl_products)
qed

lemma composite_error:
  assumes "distinct sset" "distinct pset"
  shows "\<bar>composite (score_job sset pset j)
          - (7 / 10 * jaccard pset (new_Set (jobKeywords j))
             + 3 / 10 * jaccard sset (new_Set (jobKeywords j)))\<bar> \<le> 1 / 2 ^ 50"
proof -
  let ?p = "jaccard pset (new_Set (jobKeywords j))"
  let ?s = "jaccard sset (new_Set (jobKeywords j))"
  have r: "0 \<le> ?p" "?p \<le> 1" "0 \<le> ?s" "?s \<le> 1"
    using assms by (simp_all add: jaccard_nonneg jaccard_le_1)
  note p = term_bounds[OF dbl_constants(1) dbl_idem r(1,2)]
  note s = term_bounds[OF dbl_constants(3) dbl_idem r(3,4)]
  have c7: "\<bar>dbl (7 / 10) - 7 / 10\<bar> \<le> 1 / 2 ^ 53" by (intro dbl_error) simp
  have c3: "\<bar>dbl (3 / 10) - 3 / 10\<bar> \<le> 1 / 2 ^ 53" by (intro dbl_error) simp
  have scale: "\<bar>c * x - d * x\<bar> \<le> 1 / 2 ^ 53"
    if "\<bar>c - d\<bar> \<le> 1 / 2 ^ 53" "0 \<le> x" "x \<le> 1" for c d x :: rat
  proof -
    have "\<bar>c * x - d * x\<bar> = \<bar>c - d\<bar> * x" using that(2) by (simp add: abs_mult flip: left_diff_distrib)
    also have "\<dots> \<le> \<bar>c - d\<bar> * 1" using that(3) by (intro mult_left_mono) simp_all
    finally show ?thesis using that(1) by simp
  qed
  have p1: "\<bar>dbl (7 / 10) * ?p - 7 / 10 * ?p\<bar> \<le> 1 / 2 ^ 53" using c7 r(1,2) by (rule scale)
  have s1: "\<bar>dbl (3 / 10) * ?s - 3 / 10 * ?s\<bar> \<le> 1 / 2 ^ 53" using c3 r(3,4) by (rule scale)
  have "0 \<le> dbl (7 / 10) * ?p" using dbl_constants(1) r(1) by simp
  moreover have "dbl (7 / 10) * ?p \<le> 1 * 1"
    using dbl_constants(1,2) r(1,2) by (intro mult_mono) simp_all
  ultimately have p2: "\<bar>dbl (dbl (7 / 10) * ?p) - dbl (7 / 10) * ?p\<bar> \<le> 1 / 2 ^ 53"
    by (intro dbl_error) simp
  have "0 \<le> dbl (3 / 10) * ?s" using dbl_constants(3) r(3) by simp
  moreover have "dbl (3 / 10) * ?s \<le> 1 * 1"
    using dbl_constants(3,4) r(3,4) by (intro mult_mono) simp_all
  ultimately have s2: "\<bar>dbl (dbl (3 / 10) * ?s) - dbl (3 / 10) * ?s\<bar> \<le> 1 / 2 ^ 53"
    by (intro dbl_error) simp
  have "\<bar>dbl (dbl (7 / 10) * ?p) + dbl (dbl (3 / 10) * ?s)\<bar> < 2"
    using p s dbl_constants(2) dbl_products(4) by linarith
  then have t: "\<bar>dbl (dbl (dbl (7 / 10) * ?p) + dbl (dbl (3 / 10) * ?s))
      - (dbl (dbl (7 / 10) * ?p) + dbl (dbl (3 / 10) * ?s))\<bar> \<le> 1 / 2 ^ 53"
    by (rule dbl_error)
  have "\<bar>dbl (dbl (dbl (7 / 10) * ?p) + dbl (dbl (3 / 10) * ?s)) - (7 / 10 * ?p + 3 / 10 * ?s)\<bar>
      \<le> 5 * (1 / 2 ^ 53)"
    using p1 p2 s1 s2 t by linarith
  also have "\<dots> \<le> (1 / 2 ^ 50 :: rat)" by simp
  finally show ?thesis unfolding composite_score_job .
qed

lemma sorted_descending:
  "sorted_wrt (\<lambda>a b. composite a \<ge> composite b) (sort_key (\<lambda>c. - composite c) xs)"
proof -
  have "sorted (map (\<lambda>c. - composite c) (sort_key (\<lambda>c. - composite c) xs))"
    by (rule sorted_sort_key)
  then show ?thesis by (simp add: sorted_map)
qed

text \<open>
  C7. The claim: the composite score of each job equals exactly 0.7 times the Jaccard
  similarity of its tokens with the preference tokens plus 0.3 times that with the skill
  tokens, a term being 0 when its token list is empty; the score lies between 0 and 1; and
  \<open>prefilterCandidates\<close> returns the top \<open>topN\<close> jobs in descending order of the composite
  score, ties broken by catalog order. The score is computed in doubles, so it is the
  rounded value of \<open>0.7*pref + 0.3*skill\<close> and not always the exact one: of two jobs whose
  exact scores tie, the later one of the catalog can come first. What holds: the composite
  score is the double value of \<open>0.7*pref + 0.3*skill\<close>, \<open>pref\<close> and \<open>skill\<close> being the
  rounded quotients \<open>inter / union\<close>; it differs from the exact \<open>0.7 pref + 0.3 skill\<close> by
  at most \<open>1 / 2 ^ 50\<close>; a term is 0 when its token list is empty; the score lies between
  0 and 1; and \<open>prefilterCandidates\<close> returns the first \<open>topN\<close> entries of the scored
  catalog put in descending order of the double score, entries of equal double score
  keeping their catalog order.
\<close>

theorem prefilterCandidates_ranking:
  "let sset = new_Set skillTokens; pset = new_Set prefTokens;
       scored = map (score_job sset pset) catalog;
       ranked = sort_key (\<lambda>c. - composite c) scored
   in map job scored = catalog
    \<and> (\<forall>c \<in> set scored.
          composite c = dbl (dbl (dbl (7 / 10) * jaccard pset (new_Set (jobKeywords (job c))))
                             + dbl (dbl (3 / 10) * jaccard sset (new_Set (jobKeywords (job c)))))
          \<and> \<bar>composite c - (7 / 10 * jaccard pset (new_Set (jobKeywords (job c)))
                              + 3 / 10 * jaccard sset (new_Set (jobKeywords (job c))))\<bar> \<le> 1 / 2 ^ 50
          \<and> 0 \<le> composite c \<and> composite c \<le> 1)
    \<and> (prefTokens = [] \<longrightarrow>
          (\<forall>c \<in> set scored.
             composite c = dbl (dbl (3 / 10) * jaccard sset (new_Set (jobKeywords (job c))))))
    \<and> (skillTokens = [] \<longrightarrow>
          (\<forall>c \<in> set scored.
             composite c = dbl (dbl (7 / 10) * jaccard pset (new_Set (jobKeywords (job c))))))
    \<and> mset ranked = mset scored
    \<and> sorted_wrt (\<lambda>a b. composite a \<ge> composite b) ranked
    \<and> (\<forall>k. filter (\<lambda>c. composite c = k) ranked = filter (\<lambda>c. composite c = k) scored)
    \<and> (0 \<le> topN \<longrightarrow>
          prefilterCandidates catalog skillTokens prefTokens topN = take (nat topN) ranked)"
proof -
  have stable: "filter (\<lambda>c. composite c = k) (sort_key (\<lambda>c. - composite c) xs)
      = filter (\<lambda>c. composite c = k) xs" for k :: rat and xs :: "candidate list"
    using sort_key_stable[of "\<lambda>c. - composite c" "- k" xs] by simp
  have jobs: "map job (map (score_job a b) catalog) = catalog" for a b
    by (simp add: comp_def)
  show ?thesis
    unfolding Let_def
    apply (intro conjI ballI allI impI)
    subgoal by (rule jobs)
    subgoal for c by (auto simp: composite_score_job)
    subgoal for c using composite_error[of "new_Set skillTokens" "new_Set prefTokens"] by auto
    subgoal for c using composite_bounds[of "new_Set skillTokens" "new_Set prefTokens"] by auto
    subgoal for c using composite_bounds[of "new_Set skillTokens" "new_Set prefTokens"] by auto
    subgoal for c by (auto simp: composite_score_job)
    subgoal for c by (auto simp: composite_score_job)
    subgoal by simp
    subgoal by (rule sorted_descending)
    subgoal for k by (rule stable)
    subgoal by (simp add: prefilterCandidates_def Let_def slice0_def)
    done
qed

theorem prefilterCandidates_ranking_witness:
  "map (\<lambda>c. (job_id (job c), composite c))
     (prefilterCandidates example_jobs [''python'', ''advanced'', ''sql''] [''looking'', ''remote'', ''work''] 3)
   = [(''j2'', 5044031582654955 / 72057594037927936),
      (''j1'', 4803839602528529 / 72057594037927936),
      (''j3'', 4803839602528529 / 72057594037927936)]
   \<and> composite (score_job (new_Set [''python'', ''advanced'', ''sql''])
         (new_Set [''looking'', ''remote'', ''work'']) (hd example_jobs)) \<le> 1
   \<and> composite (score_job (new_Set [''python'', ''advanced'', ''sql''])
         (new_Set [''looking'', ''remote'', ''work'']) (hd example_jobs))
       = dbl (dbl (dbl (7 / 10) * jaccard (new_Set [''looking'', ''remote'', ''work''])
                                    (new_Set (jobKeywords (hd example_jobs))))
              + dbl (dbl (3 / 10) * jaccard (new_Set [''python'', ''advanced'', ''sql''])
                                      (new_Set (jobKeywords (hd example_jobs)))))"
proof -
  let ?sk = "[''python'', ''advanced'', ''sql'']"
  let ?pr = "[''looking'', ''remote'', ''work'']"
  let ?scored = "map (score_job (new_Set ?sk) (new_Set ?pr)) example_jobs"
  let ?c = "score_job (new_Set ?sk) (new_Set ?pr) (hd example_jobs)"
  note T = prefilterCandidates_ranking[of ?sk ?pr example_jobs 3, unfolded Let_def]
  have mem: "?c \<in> set ?scored"
    by (simp add: example_jobs_def)
  have "0 \<le> (3::int) \<longrightarrow> prefilterCandidates example_jobs ?sk ?pr 3
      = take (nat 3) (sort_key (\<lambda>c. - composite c) ?scored)"
    using T by - (elim conjE, assumption)
  then have a: "prefilterCandidates example_jobs ?sk ?pr 3
      = take (nat 3) (sort_key (\<lambda>c. - composite c) ?scored)"
    by simp
  have b: "map (\<lambda>c. (job_id (job c), composite c))
      (take (nat 3) (sort_key (\<lambda>c. - composite c) ?scored))
    = [(''j2'', 5044031582654955 / 72057594037927936),
       (''j1'', 4803839602528529 / 72057594037927936),
       (''j3'', 4803839602528529 / 72057594037927936)]"
    by code_simp
  have "\<forall>c \<in> set ?scored.
          composite c = dbl (dbl (dbl (7 / 10) * jaccard (new_Set ?pr) (new_Set (jobKeywords (job c))))
                             + dbl (dbl (3 / 10) * jaccard (new_Set ?sk) (new_Set (jobKeywords (job c)))))
          \<and> \<bar>composite c - (7 / 10 * jaccard (new_Set ?pr) (new_Set (jobKeywords (job c)))
                              + 3 / 10 * jaccard (new_Set ?sk) (new_Set (jobKeywords (job c))))\<bar> \<le> 1 / 2 ^ 50
          \<and> 0 \<le> composite c \<and> composite c \<le> 1"
    using T by - (elim conjE, assumption)
  then have c: "composite ?c = dbl (dbl (dbl (7 / 10) * jaccard (new_Set ?pr) (new_Set (jobKeywords (job ?c))))
                             + dbl (dbl (3 / 10) * jaccard (new_Set ?sk) (new_Set (jobKeywords (job ?c)))))
          \<and> \<bar>composite ?c - (7 / 10 * jaccard (new_Set ?pr) (new_Set (jobKeywords (job ?c)))
                              + 3 / 10 * jaccard (new_Set ?sk) (new_Set (jobKeywords (job ?c))))\<bar> \<le> 1 / 2 ^ 50
          \<and> 0 \<le> composite ?c \<and> composite ?c \<le> 1"
    using mem by (rule bspec)
  have d: "job ?c = hd example_jobs" by (simp add: score_job_def Let_def)
  show ?thesis
    using c unfolding a b d by blast
qed

theorem prefilterCandidates_rounding_counterexample:
  "map (\<lambda>c. (job_id (job c), jaccard [''alpha'', ''beta'', ''gamma''] (new_Set (jobKeywords (job c))),
          jaccard [''python''] (new_Set (jobKeywords (job c))), composite c))
     (map (score_job (new_Set [''python'']) (new_Set [''alpha'', ''beta'', ''gamma''])) tie_jobs)
    = [(''b'', 3 / 8, 1 / 8, 2702159776422297 / 9007199254740992),
       (''a'', 0, 1, 5404319552844595 / 18014398509481984)]
   \<and> (7 / 10 * (3 / 8) + 3 / 10 * (1 / 8) :: rat) = 7 / 10 * 0 + 3 / 10 * 1
   \<and> (2702159776422297 / 9007199254740992 :: rat) \<noteq> 7 / 10 * (3 / 8) + 3 / 10 * (1 / 8)
   \<and> map (\<lambda>c. job_id (job c))
        (prefilterCandidates tie_jobs [''python''] [''alpha'', ''beta'', ''gamma''] 2)
      = [''a'', ''b'']"
  by code_simp

section \<open>Merged skills\<close>

subsection \<open>Insertion-ordered maps and sets\<close>

lemma map_fst_map_set:
  "map fst (map_set k v m) = Set_add k (map fst m)"
  by (induction m) (auto simp: Set_add_def)

lemma map_of_map_set:
  "map_of (map_set k v m) = (map_of m)(k \<mapsto> v)"
  by (induction m) (auto simp: fun_eq_iff)

lemma new_Set_snoc: "new_Set (xs @ [x]) = Set_add x (new_Set xs)"
  by (simp add: new_Set_def)

lemma new_Set_distinct: "distinct xs \<Longrightarrow> new_Set xs = xs"
  by (induction xs rule: rev_induct) (auto simp: new_Set_snoc Set_add_def)

lemma new_Set_append_distinct:
  "distinct d \<Longrightarrow> \<exists>zs. new_Set (d @ ys) = d @ zs"
proof (induction ys rule: rev_induct)
  case Nil
  then show ?case by (simp add: new_Set_distinct)
next
  case (snoc y ys)
  then obtain zs where "new_Set (d @ ys) = d @ zs" by blast
  then show ?case
    using new_Set_snoc[of "d @ ys" y] by (auto simp: Set_add_def)
qed

lemma new_Set_new_Set_append: "new_Set (new_Set xs @ ys) = new_Set (xs @ ys)"
proof (induction ys rule: rev_induct)
  case Nil
  then show ?case by (simp add: new_Set_distinct)
next
  case (snoc y ys)
  have "new_Set (new_Set xs @ ys @ [y]) = Set_add y (new_Set (new_Set xs @ ys))"
    using new_Set_snoc[of "new_Set xs @ ys" y] by simp
  also have "\<dots> = Set_add y (new_Set (xs @ ys))" by (simp add: snoc)
  also have "\<dots> = new_Set (xs @ ys @ [y])"
    using new_Set_snoc[of "xs @ ys" y] by simp
  finally show ?case .
qed

lemma new_Set_prefix: "\<exists>zs. new_Set (xs @ ys) = new_Set xs @ zs"
  using new_Set_append_distinct[of "new_Set xs" ys] by (simp add: new_Set_new_Set_append)

lemma take_new_Set_take:
  "take n (new_Set (take n (new_Set xs) @ ys)) = take n (new_Set (xs @ ys))"
proof (cases "length (new_Set xs) \<le> n")
  case True
  then show ?thesis by (simp add: new_Set_new_Set_append)
next
  case False
  then have len: "length (take n (new_Set xs)) = n" by simp
  obtain zs where zs: "new_Set (take n (new_Set xs) @ ys) = take n (new_Set xs) @ zs"
    using new_Set_append_distinct[of "take n (new_Set xs)" ys] by auto
  obtain ws where ws: "new_Set (xs @ ys) = new_Set xs @ ws"
    using new_Set_prefix by blast
  have "take n (new_Set (take n (new_Set xs) @ ys)) = take n (new_Set xs)"
    unfolding zs using len by simp
  moreover have "take n (new_Set (xs @ ys)) = take n (new_Set xs)"
    unfolding ws using False by simp
  ultimately show ?thesis by simp
qed

lemma map_fst_new_Map:
  "map fst (new_Map es) = new_Set (map fst es)"
proof -
  have "map fst (foldl (\<lambda>m (k, v). map_set k v m) m0 es)
      = foldl (\<lambda>s x. Set_add x s) (map fst m0) (map fst es)" for m0 :: "('a \<times> 'b) list"
    by (induction es arbitrary: m0) (auto simp: map_fst_map_set)
  from this[of "[]"] show ?thesis by (simp add: new_Map_def new_Set_def)
qed

lemma map_of_new_Map: "map_of (new_Map es) = map_of (rev es)"
proof -
  have "map_of (foldl (\<lambda>m (k, v). map_set k v m) m0 es) = map_of (rev es @ m0)"
    for m0 :: "('a \<times> 'b) list"
    by (induction es arbitrary: m0) (auto simp: map_of_map_set fun_eq_iff map_add_def split: option.splits)
  from this[of "[]"] show ?thesis by (simp add: new_Map_def)
qed

lemma map_snd_alist:
  "distinct (map fst m) \<Longrightarrow> map snd m = map (\<lambda>k. the (map_of m k)) (map fst m)"
proof (induction m)
  case Nil
  then show ?case by simp
next
  case (Cons a m)
  have "map (\<lambda>k. the (map_of (a # m) k)) (map fst m) = map (\<lambda>k. the (map_of m k)) (map fst m)"
  proof (rule map_cong[OF refl])
    fix k assume "k \<in> set (map fst m)"
    then have "k \<noteq> fst a" using Cons.prems by (auto simp: image_iff)
    then show "the (map_of (a # m) k) = the (map_of m k)" by (cases a) simp
  qed
  moreover have "the (map_of (a # m) (fst a)) = snd a" by (cases a) simp
  moreover have "map snd m = map (\<lambda>k. the (map_of m k)) (map fst m)"
    using Cons by simp
  ultimately show ?case by simp
qed

subsection \<open>The loop over the incoming skills\<close>

lemma merge_step_alt:
  "merge_step m s = map_set (norm (name s)) (merged_value (map_of m (norm (name s))) s) m"
  by (simp add: merge_step_def merged_value_def Let_def split: option.splits)

lemma map_fst_fold_merge_step:
  "map fst (foldl merge_step m inc)
     = foldl (\<lambda>ks k. Set_add k ks) (map fst m) (map (\<lambda>s. norm (name s)) inc)"
  by (induction inc arbitrary: m) (simp_all add: merge_step_alt map_fst_map_set)

lemma map_of_fold_merge_step:
  "map_of (foldl merge_step m inc) k
     = merge_all (map_of m k) (filter (\<lambda>s. norm (name s) = k) inc)"
  by (induction inc arbitrary: m) (simp_all add: merge_step_alt map_of_map_set merge_all_def)

lemma mergeSkills_closed_form:
  "mergeSkills base inc =
     take 120 (map (\<lambda>k. the (merge_all
                  (map_of (rev (map (\<lambda>s. (norm (name s), s\<lparr>evidence := take 3 (evidence s)\<rparr>)) base)) k)
                  (filter (\<lambda>s. norm (name s) = k) inc)))
        (new_Set (map (\<lambda>s. norm (name s)) (base @ inc))))"
proof -
  let ?es = "map (\<lambda>s. (norm (name s), s\<lparr>evidence := take 3 (evidence s)\<rparr>)) base"
  let ?mF = "foldl merge_step (new_Map ?es) inc"
  have keys: "map fst ?mF = new_Set (map (\<lambda>s. norm (name s)) (base @ inc))"
    by (simp add: map_fst_fold_merge_step map_fst_new_Map comp_def new_Set_def)
  then have "distinct (map fst ?mF)" by simp
  then have "map snd ?mF = map (\<lambda>k. the (map_of ?mF k)) (map fst ?mF)"
    by (rule map_snd_alist)
  then show ?thesis
    unfolding mergeSkills_def keys by (simp add: map_of_fold_merge_step map_of_new_Map)
qed


subsection \<open>The order of the ranks\<close>

lemma rank_gt_irrefl [simp]: "\<not> rank_gt a a"
  by (cases a) simp_all

lemma rank_gt_trans: "rank_gt a b \<Longrightarrow> rank_gt b c \<Longrightarrow> rank_gt a c"
  by (cases a; cases b; cases c) auto

lemma rank_gt_asym: "rank_gt a b \<Longrightarrow> \<not> rank_gt b a"
  using rank_gt_trans rank_gt_irrefl by blast

subsection \<open>Merged evidence\<close>

lemma evidence_id_truncated [simp]:
  "evidence_id \<lparr>artifact_id = artifact_id e, snippet = take 240 (snippet e)\<rparr> = evidence_id e"
  by (simp add: evidence_id_def)

lemma merge_evidence_length:
  "length acc < 3 \<Longrightarrow> length (merge_evidence seen acc es) \<le> 3"
proof (induction es arbitrary: seen acc)
  case Nil
  then show ?case by simp
next
  case (Cons e es)
  show ?case
  proof (cases "evidence_id e \<in> set seen")
    case True
    then show ?thesis using Cons by (simp add: Let_def)
  next
    case False
    then show ?thesis using Cons.prems Cons.IH[of "acc @ [\<lparr>artifact_id = artifact_id e, snippet = take 240 (snippet e)\<rparr>]" "evidence_id e # seen"]
      by (auto simp: Let_def)
  qed
qed

lemma merge_evidence_canonical:
  "set seen = evidence_id ` set acc \<Longrightarrow> canonical acc \<Longrightarrow> canonical (merge_evidence seen acc es)"
proof (induction es arbitrary: seen acc)
  case Nil
  then show ?case by simp
next
  case (Cons e es)
  let ?e = "\<lparr>artifact_id = artifact_id e, snippet = take 240 (snippet e)\<rparr>"
  show ?case
  proof (cases "evidence_id e \<in> set seen")
    case True
    then show ?thesis using Cons by (simp add: Let_def)
  next
    case False
    have c: "canonical (acc @ [?e])"
      using False Cons.prems by (auto simp: canonical_def)
    have s: "set (evidence_id e # seen) = evidence_id ` set (acc @ [?e])"
      using Cons.prems(1) by auto
    show ?thesis
      using False c Cons.IH[OF s c] by (simp add: Let_def)
  qed
qed

lemma merge_evidence_cover:
  "set seen = evidence_id ` set acc \<Longrightarrow>
     3 \<le> length (merge_evidence seen acc es)
     \<or> evidence_id ` (set acc \<union> set es) \<subseteq> evidence_id ` set (merge_evidence seen acc es)"
proof (induction es arbitrary: seen acc)
  case Nil
  then show ?case by simp
next
  case (Cons e es)
  let ?e = "\<lparr>artifact_id = artifact_id e, snippet = take 240 (snippet e)\<rparr>"
  show ?case
  proof (cases "evidence_id e \<in> set seen")
    case True
    show ?thesis
    proof (cases "3 \<le> length acc")
      case True
      then show ?thesis using \<open>evidence_id e \<in> set seen\<close> by (simp add: Let_def)
    next
      case False
      then show ?thesis
        using True Cons.IH[OF Cons.prems] Cons.prems by (auto simp: Let_def)
    qed
  next
    case False
    have s: "set (evidence_id e # seen) = evidence_id ` set (acc @ [?e])"
      using Cons.prems(1) by auto
    show ?thesis
    proof (cases "3 \<le> length (acc @ [?e])")
      case True
      then show ?thesis using False by (simp add: Let_def)
    next
      case nf: False
      have "merge_evidence seen acc (e # es) = merge_evidence (evidence_id e # seen) (acc @ [?e]) es"
        using False nf by (simp add: Let_def)
      moreover have "evidence_id ` (set acc \<union> set (e # es)) = evidence_id ` (set (acc @ [?e]) \<union> set es)"
        by auto
      ultimately show ?thesis using Cons.IH[OF s] by simp
    qed
  qed
qed

lemma merge_evidence_skip:
  "evidence_id ` set es \<subseteq> set seen \<Longrightarrow> length acc < 3 \<Longrightarrow> merge_evidence seen acc es = acc"
  by (induction es) (auto simp: Let_def)

lemma short_item: "length (snippet e) \<le> 240 \<Longrightarrow> \<lparr>artifact_id = artifact_id e, snippet = take 240 (snippet e)\<rparr> = e"
  by simp

lemma merge_evidence_absorb_gen:
  assumes "set seen = evidence_id ` set acc"
    and "canonical (acc @ rest)"
    and "length (acc @ rest) \<le> 3"
    and "rest \<noteq> [] \<or> length acc < 3"
    and "length (acc @ rest) = 3 \<or> evidence_id ` set ev \<subseteq> evidence_id ` set (acc @ rest)"
  shows "merge_evidence seen acc (rest @ ev) = acc @ rest"
  using assms
proof (induction rest arbitrary: seen acc)
  case Nil
  then show ?case by (simp add: merge_evidence_skip)
next
  case (Cons e rest)
  have fresh: "evidence_id e \<notin> set seen"
    using Cons.prems(1,2) by (auto simp: canonical_def)
  have e: "\<lparr>artifact_id = artifact_id e, snippet = take 240 (snippet e)\<rparr> = e"
    using Cons.prems(2) by (simp add: canonical_def)
  show ?case
  proof (cases "3 \<le> length (acc @ [e])")
    case True
    then have "rest = []" using Cons.prems(3) by (cases rest) auto
    then show ?thesis using fresh e True by (simp add: Let_def)
  next
    case False
    have step: "merge_evidence seen acc ((e # rest) @ ev)
        = merge_evidence (evidence_id e # seen) (acc @ [e]) (rest @ ev)"
      using fresh e False by (simp add: Let_def)
    have "merge_evidence (evidence_id e # seen) (acc @ [e]) (rest @ ev) = (acc @ [e]) @ rest"
    proof (rule Cons.IH)
      show "set (evidence_id e # seen) = evidence_id ` set (acc @ [e])"
        using Cons.prems(1) by auto
      show "canonical ((acc @ [e]) @ rest)" using Cons.prems(2) by simp
      show "length ((acc @ [e]) @ rest) \<le> 3" using Cons.prems(3) by simp
      show "rest \<noteq> [] \<or> length (acc @ [e]) < 3" using False by simp
      show "length ((acc @ [e]) @ rest) = 3
          \<or> evidence_id ` set ev \<subseteq> evidence_id ` set ((acc @ [e]) @ rest)"
        using Cons.prems(5) by simp
    qed
    then show ?thesis using step by simp
  qed
qed

lemma merge_evidence_absorb:
  assumes "canonical E" "length E \<le> 3"
    and "length E = 3 \<or> evidence_id ` set ev \<subseteq> evidence_id ` set E"
  shows "merge_evidence [] [] (E @ ev) = E"
  using merge_evidence_absorb_gen[of "[]" "[]" E ev] assms by auto


subsection \<open>Merging the entries of one name\<close>

lemma merged_value_Some [simp]:
  "name (merged_value (Some cur) s) = name cur"
  "level (merged_value (Some cur) s)
     = (if rank_gt (LEVEL_RANK (level s)) (LEVEL_RANK (level cur)) then level s else level cur)"
  "evidence (merged_value (Some cur) s) = merge_evidence [] [] (evidence cur @ evidence s)"
  by (simp_all add: merged_value_def)

lemma merged_value_None [simp]:
  "merged_value None s = s\<lparr>evidence := take 3 (evidence s)\<rparr>"
  by (simp add: merged_value_def)

lemma merge_all_Nil [simp]: "merge_all start [] = start"
  by (simp add: merge_all_def)

lemma merge_all_Cons [simp]: "merge_all start (s # ss) = merge_all (Some (merged_value start s)) ss"
  by (simp add: merge_all_def)

lemma merge_all_snoc: "merge_all start (ss @ [s]) = Some (merged_value (merge_all start ss) s)"
  by (simp add: merge_all_def)

lemma canonical_Nil [simp]: "canonical []"
  by (simp add: canonical_def)

lemma merged_evidence_canonical:
  "canonical (merge_evidence [] [] es) \<and> length (merge_evidence [] [] es) \<le> 3"
  using merge_evidence_canonical[of "[]" "[]" es] merge_evidence_length[of "[]" "[]" es] by simp

lemma merge_all_Some:
  "\<exists>v. merge_all (Some v0) ss = Some v \<and> name v = name v0
     \<and> (level v = level v0 \<or> rank_gt (LEVEL_RANK (level v)) (LEVEL_RANK (level v0)))
     \<and> (level v = level v0 \<or> (\<exists>s \<in> set ss. level s = level v))
     \<and> (\<forall>s \<in> set ss. \<not> rank_gt (LEVEL_RANK (level s)) (LEVEL_RANK (level v)))
     \<and> (ss = [] \<longrightarrow> v = v0)
     \<and> (ss \<noteq> [] \<longrightarrow> canonical (evidence v) \<and> length (evidence v) \<le> 3)"
proof (induction ss rule: rev_induct)
  case Nil
  then show ?case by simp
next
  case (snoc s ss)
  then obtain v where v: "merge_all (Some v0) ss = Some v" "name v = name v0"
    "level v = level v0 \<or> rank_gt (LEVEL_RANK (level v)) (LEVEL_RANK (level v0))"
    "level v = level v0 \<or> (\<exists>s \<in> set ss. level s = level v)"
    "\<forall>s \<in> set ss. \<not> rank_gt (LEVEL_RANK (level s)) (LEVEL_RANK (level v))"
    by blast
  let ?v = "merged_value (Some v) s"
  have 1: "merge_all (Some v0) (ss @ [s]) = Some ?v"
    by (simp add: merge_all_snoc v(1))
  have 2: "name ?v = name v0" using v(2) by simp
  have 3: "level ?v = level v0 \<or> rank_gt (LEVEL_RANK (level ?v)) (LEVEL_RANK (level v0))"
    using v(3) by (auto dest: rank_gt_trans)
  have 4: "level ?v = level v0 \<or> (\<exists>t \<in> set (ss @ [s]). level t = level ?v)"
    using v(4) by auto
  have 5: "\<forall>t \<in> set (ss @ [s]). \<not> rank_gt (LEVEL_RANK (level t)) (LEVEL_RANK (level ?v))"
    using v(5) by (auto dest: rank_gt_trans)
  have 6: "canonical (evidence ?v) \<and> length (evidence ?v) \<le> 3"
    using merged_evidence_canonical by simp
  show ?case using 1 2 3 4 5 6 by blast
qed

lemma merge_all_None:
  assumes "ss \<noteq> []"
  shows "\<exists>v. merge_all None ss = Some v \<and> name v = name (hd ss)
     \<and> (\<exists>s \<in> set ss. level s = level v)
     \<and> (\<forall>s \<in> set ss. \<not> rank_gt (LEVEL_RANK (level s)) (LEVEL_RANK (level v)))
     \<and> length (evidence v) \<le> 3
     \<and> (length ss \<ge> 2 \<longrightarrow> canonical (evidence v))"
proof -
  obtain s0 rest where ss: "ss = s0 # rest" using assms by (cases ss) auto
  let ?v0 = "s0\<lparr>evidence := take 3 (evidence s0)\<rparr>"
  obtain v where v: "merge_all (Some ?v0) rest = Some v" "name v = name ?v0"
    "level v = level ?v0 \<or> rank_gt (LEVEL_RANK (level v)) (LEVEL_RANK (level ?v0))"
    "level v = level ?v0 \<or> (\<exists>s \<in> set rest. level s = level v)"
    "\<forall>s \<in> set rest. \<not> rank_gt (LEVEL_RANK (level s)) (LEVEL_RANK (level v))"
    "rest = [] \<longrightarrow> v = ?v0"
    "rest \<noteq> [] \<longrightarrow> canonical (evidence v) \<and> length (evidence v) \<le> 3"
    using merge_all_Some[of ?v0 rest] by blast
  have "\<not> rank_gt (LEVEL_RANK (level s0)) (LEVEL_RANK (level v))"
    using v(3) by (auto dest: rank_gt_asym)
  moreover have "length (evidence v) \<le> 3" using v(6,7) by (cases rest) auto
  moreover have "length ss \<ge> 2 \<longrightarrow> canonical (evidence v)"
    using v(7) ss by (cases rest) auto
  ultimately show ?thesis
    using v(1,2,4,5) ss by auto
qed

subsection \<open>Evidence that a merge keeps\<close>

lemma canonical_take: "canonical es \<Longrightarrow> canonical (take n es)"
  by (auto simp: canonical_def distinct_take take_map[symmetric] list_all_iff dest: in_set_takeD)

lemma canonical_card: "canonical es \<Longrightarrow> card (evidence_id ` set es) = length es"
  by (metis canonical_def distinct_card list.set_map length_map)

lemma cover_step:
  assumes "canonical (evidence cur)"
    and "\<forall>t \<in> S. length (evidence cur) = 3
            \<or> evidence_id ` set (evidence t) \<subseteq> evidence_id ` set (evidence cur)"
  shows "\<forall>t \<in> insert s S. length (evidence (merged_value (Some cur) s)) = 3
            \<or> evidence_id ` set (evidence t)
                 \<subseteq> evidence_id ` set (evidence (merged_value (Some cur) s))"
proof (cases "length (merge_evidence [] [] (evidence cur @ evidence s)) = 3")
  case True
  then show ?thesis by simp
next
  case False
  let ?E' = "merge_evidence [] [] (evidence cur @ evidence s)"
  have len: "length ?E' < 3"
    using False merged_evidence_canonical[of "evidence cur @ evidence s"] by simp
  then have sub: "evidence_id ` (set (evidence cur) \<union> set (evidence s)) \<subseteq> evidence_id ` set ?E'"
    using merge_evidence_cover[of "[]" "[]" "evidence cur @ evidence s"] by auto
  have "card (evidence_id ` set (evidence cur)) \<le> card (evidence_id ` set ?E')"
    using sub by (intro card_mono) auto
  also have "\<dots> \<le> length ?E'" by (metis card_length list.set_map length_map)
  finally have "length (evidence cur) < 3"
    using len canonical_card[OF assms(1)] by simp
  then have h: "\<forall>t \<in> S. evidence_id ` set (evidence t) \<subseteq> evidence_id ` set (evidence cur)"
    using assms(2) by auto
  have a: "evidence_id ` set (evidence cur) \<subseteq> evidence_id ` set ?E'"
    and b: "evidence_id ` set (evidence s) \<subseteq> evidence_id ` set ?E'"
    using sub by (auto simp: image_Un)
  show ?thesis
  proof (intro ballI disjI2)
    fix t assume t: "t \<in> insert s S"
    show "evidence_id ` set (evidence t)
        \<subseteq> evidence_id ` set (evidence (merged_value (Some cur) s))"
    proof (cases "t = s")
      case True
      then show ?thesis using b by simp
    next
      case False
      then have "t \<in> S" using t by simp
      then have "evidence_id ` set (evidence t) \<subseteq> evidence_id ` set (evidence cur)"
        using h by blast
      then show ?thesis using a by (simp only: merged_value_Some)
    qed
  qed
qed

lemma merge_all_cover:
  assumes "ss \<noteq> []" and "\<forall>s \<in> set ss. canonical (evidence s)"
  shows "\<exists>v. merge_all None ss = Some v \<and> canonical (evidence v) \<and> length (evidence v) \<le> 3
     \<and> (\<forall>t \<in> set ss. length (evidence v) = 3
            \<or> evidence_id ` set (evidence t) \<subseteq> evidence_id ` set (evidence v))"
  using assms
proof (induction ss rule: rev_induct)
  case Nil
  then show ?case by simp
next
  case (snoc s ss)
  show ?case
  proof (cases "ss = []")
    case True
    have "canonical (take 3 (evidence s))" using snoc.prems by (simp add: canonical_take)
    moreover have "length (take 3 (evidence s)) = 3 \<or> take 3 (evidence s) = evidence s"
      by auto
    ultimately show ?thesis using True by auto
  next
    case False
    then obtain v where v: "merge_all None ss = Some v" "canonical (evidence v)"
      "\<forall>t \<in> set ss. length (evidence v) = 3
            \<or> evidence_id ` set (evidence t) \<subseteq> evidence_id ` set (evidence v)"
      using snoc by auto
    have "merge_all None (ss @ [s]) = Some (merged_value (Some v) s)"
      by (simp add: merge_all_snoc v(1))
    moreover have "canonical (evidence (merged_value (Some v) s))
        \<and> length (evidence (merged_value (Some v) s)) \<le> 3"
      using merged_evidence_canonical by simp
    moreover have "\<forall>t \<in> set (ss @ [s]). length (evidence (merged_value (Some v) s)) = 3
            \<or> evidence_id ` set (evidence t)
                 \<subseteq> evidence_id ` set (evidence (merged_value (Some v) s))"
      using cover_step[OF v(2,3), of s] by simp
    ultimately show ?thesis by blast
  qed
qed

lemma merge_all_absorb:
  assumes "ss \<noteq> []" and "\<forall>s \<in> set ss. canonical (evidence s)"
    and "merge_all None ss = Some v"
  shows "merge_all (Some v) ss = Some v"
proof -
  have lv: "\<forall>s \<in> set ss. \<not> rank_gt (LEVEL_RANK (level s)) (LEVEL_RANK (level v))"
    using merge_all_None[OF assms(1)] assms(3) by auto
  have ev: "canonical (evidence v)" "length (evidence v) \<le> 3"
    "\<forall>t \<in> set ss. length (evidence v) = 3
            \<or> evidence_id ` set (evidence t) \<subseteq> evidence_id ` set (evidence v)"
    using merge_all_cover[OF assms(1,2)] assms(3) by auto
  have fixed: "merged_value (Some v) s = v" if "s \<in> set ss" for s
  proof -
    have "merge_evidence [] [] (evidence v @ evidence s) = evidence v"
      using ev that by (intro merge_evidence_absorb) auto
    then show ?thesis using lv that by (simp add: merged_value_def)
  qed
  have "\<forall>s \<in> set ts. merged_value (Some v) s = v \<Longrightarrow> merge_all (Some v) ts = Some v" for ts
    by (induction ts) simp_all
  then show ?thesis using fixed by blast
qed

subsection \<open>Entries of the merged list\<close>

lemma mergeSkills_entries:
  "mergeSkills base inc
     = map (merged_entry base inc) (take 120 (new_Set (map skill_key (base @ inc))))"
  unfolding mergeSkills_closed_form merged_entry_def by (simp add: take_map)

lemma base_entries_mem:
  "b \<in> set base \<Longrightarrow>
     (skill_key b, b\<lparr>evidence := take 3 (evidence b)\<rparr>) \<in> set (rev (base_entries base))"
  by (simp only: set_rev set_map) (rule image_eqI[where x = b], rule refl)

lemma base_entries_memD:
  assumes "(k, v) \<in> set (rev (base_entries base))"
  shows "\<exists>b \<in> set base. skill_key b = k \<and> v = b\<lparr>evidence := take 3 (evidence b)\<rparr>"
proof -
  have "(k, v) \<in> (\<lambda>s. (skill_key s, s\<lparr>evidence := take 3 (evidence s)\<rparr>)) ` set base"
    using assms by (simp only: set_rev set_map)
  then obtain b where "b \<in> set base" "(k, v) = (skill_key b, b\<lparr>evidence := take 3 (evidence b)\<rparr>)"
    by (rule imageE)
  then show ?thesis by (intro bexI[of _ b]) (simp_all only: prod.inject)
qed

lemma base_entries_keys: "map fst (rev (base_entries base)) = rev (map skill_key base)"
  by (simp only: rev_map map_map comp_def fst_conv)

lemma map_of_in_keys: "k \<in> fst ` set es \<Longrightarrow> \<exists>v. map_of es k = Some v"
  by (metis map_of_eq_None_iff not_None_eq)

lemma map_of_not_in_keys: "k \<notin> fst ` set es \<Longrightarrow> map_of es k = None"
  by (metis map_of_eq_None_iff)

lemma base_entries_key_set: "fst ` set (rev (base_entries base)) = skill_key ` set base"
proof -
  have "set (map fst (rev (base_entries base))) = set (rev (map skill_key base))"
    by (simp only: base_entries_keys)
  then show ?thesis by (simp only: set_map set_rev)
qed

lemma base_lookup_Some:
  assumes "k \<in> skill_key ` set base"
  shows "\<exists>b \<in> set base. skill_key b = k
           \<and> map_of (rev (base_entries base)) k = Some (b\<lparr>evidence := take 3 (evidence b)\<rparr>)"
proof -
  define es where "es = rev (base_entries base)"
  have "k \<in> fst ` set es"
    unfolding es_def using assms by (simp only: base_entries_key_set)
  then have "\<exists>v. map_of es k = Some v" by (rule map_of_in_keys)
  then obtain v where v: "map_of es k = Some v" by (rule exE)
  then have "(k, v) \<in> set es" by (rule map_of_SomeD)
  then have "\<exists>b \<in> set base. skill_key b = k \<and> v = b\<lparr>evidence := take 3 (evidence b)\<rparr>"
    unfolding es_def by (rule base_entries_memD)
  then obtain b where b: "b \<in> set base" "skill_key b = k \<and> v = b\<lparr>evidence := take 3 (evidence b)\<rparr>"
    by (rule bexE)
  have "skill_key b = k \<and> map_of es k = Some (b\<lparr>evidence := take 3 (evidence b)\<rparr>)"
    using b(2) v by (simp only: simp_thms)
  then show ?thesis unfolding es_def using b(1) by (rule bexI)
qed

lemma base_lookup_None:
  assumes "k \<notin> skill_key ` set base"
  shows "map_of (rev (base_entries base)) k = None"
  by (rule map_of_not_in_keys) (simp only: base_entries_key_set assms not_False_eq_True)

lemma base_lookup_distinct:
  assumes "distinct (map skill_key base)" and "b \<in> set base"
  shows "map_of (rev (base_entries base)) (skill_key b) = Some (b\<lparr>evidence := take 3 (evidence b)\<rparr>)"
proof -
  have "distinct (map fst (rev (base_entries base)))"
    using assms(1) by (simp only: base_entries_keys distinct_rev)
  moreover have "(skill_key b, b\<lparr>evidence := take 3 (evidence b)\<rparr>) \<in> set (rev (base_entries base))"
    using assms(2) by (rule base_entries_mem)
  ultimately show ?thesis by (rule map_of_is_SomeI)
qed

lemma merged_entry_from_base:
  assumes "b \<in> set base" and "skill_key b = k"
    and "map_of (rev (base_entries base)) k = Some (b\<lparr>evidence := take 3 (evidence b)\<rparr>)"
  shows "skill_key (merged_entry base inc k) = k"
    and "name (merged_entry base inc k) = name b"
    and "length (evidence (merged_entry base inc k)) \<le> 3"
    and "level (merged_entry base inc k) = level b
          \<or> rank_gt (LEVEL_RANK (level (merged_entry base inc k))) (LEVEL_RANK (level b))"
    and "level (merged_entry base inc k) = level b
          \<or> (\<exists>s \<in> set inc. skill_key s = k \<and> level s = level (merged_entry base inc k))"
    and "\<forall>s \<in> set inc. skill_key s = k \<longrightarrow>
           \<not> rank_gt (LEVEL_RANK (level s)) (LEVEL_RANK (level (merged_entry base inc k)))"
    and "(\<exists>s \<in> set inc. skill_key s = k) \<longrightarrow> canonical (evidence (merged_entry base inc k))"
    and "(\<forall>s \<in> set inc. skill_key s \<noteq> k) \<longrightarrow> merged_entry base inc k = b\<lparr>evidence := take 3 (evidence b)\<rparr>"
proof -
  let ?v0 = "b\<lparr>evidence := take 3 (evidence b)\<rparr>"
  let ?ss = "filter (\<lambda>s. skill_key s = k) inc"
  obtain v where v: "merge_all (Some ?v0) ?ss = Some v" "name v = name ?v0"
    "level v = level ?v0 \<or> rank_gt (LEVEL_RANK (level v)) (LEVEL_RANK (level ?v0))"
    "level v = level ?v0 \<or> (\<exists>s \<in> set ?ss. level s = level v)"
    "\<forall>s \<in> set ?ss. \<not> rank_gt (LEVEL_RANK (level s)) (LEVEL_RANK (level v))"
    "?ss = [] \<longrightarrow> v = ?v0"
    "?ss \<noteq> [] \<longrightarrow> canonical (evidence v) \<and> length (evidence v) \<le> 3"
    using merge_all_Some[of ?v0 ?ss] by blast
  have me: "merged_entry base inc k = v"
    by (simp add: merged_entry_def assms(3) v(1))
  show "skill_key (merged_entry base inc k) = k" using me v(2) assms(2) by simp
  show "name (merged_entry base inc k) = name b" using me v(2) by simp
  show "length (evidence (merged_entry base inc k)) \<le> 3"
    using me v(6,7) by (cases "?ss = []") auto
  show "level (merged_entry base inc k) = level b
          \<or> rank_gt (LEVEL_RANK (level (merged_entry base inc k))) (LEVEL_RANK (level b))"
    using me v(3) by simp
  show "level (merged_entry base inc k) = level b
          \<or> (\<exists>s \<in> set inc. skill_key s = k \<and> level s = level (merged_entry base inc k))"
    using me v(4) by auto
  show "\<forall>s \<in> set inc. skill_key s = k \<longrightarrow>
           \<not> rank_gt (LEVEL_RANK (level s)) (LEVEL_RANK (level (merged_entry base inc k)))"
    using me v(5) by auto
  show "(\<exists>s \<in> set inc. skill_key s = k) \<longrightarrow> canonical (evidence (merged_entry base inc k))"
    using me v(7) by (auto simp: filter_empty_conv)
  show "(\<forall>s \<in> set inc. skill_key s \<noteq> k) \<longrightarrow> merged_entry base inc k = b\<lparr>evidence := take 3 (evidence b)\<rparr>"
    using me v(6) by (auto simp: filter_empty_conv)
qed

lemma merged_entry_new:
  assumes "k \<notin> skill_key ` set base" and "k \<in> skill_key ` set inc"
  shows "skill_key (merged_entry base inc k) = k"
    and "length (evidence (merged_entry base inc k)) \<le> 3"
    and "\<exists>s \<in> set inc. skill_key s = k \<and> level s = level (merged_entry base inc k)"
    and "\<forall>s \<in> set inc. skill_key s = k \<longrightarrow>
           \<not> rank_gt (LEVEL_RANK (level s)) (LEVEL_RANK (level (merged_entry base inc k)))"
    and "merged_entry base inc k = the (merge_all None (filter (\<lambda>s. skill_key s = k) inc))"
proof -
  let ?ss = "filter (\<lambda>s. skill_key s = k) inc"
  have ne: "?ss \<noteq> []" using assms(2) by (auto simp: filter_empty_conv)
  then have "hd ?ss \<in> set ?ss" by (rule hd_in_set)
  then have hd: "skill_key (hd ?ss) = k" by simp
  obtain v where v: "merge_all None ?ss = Some v" "name v = name (hd ?ss)"
    "\<exists>s \<in> set ?ss. level s = level v"
    "\<forall>s \<in> set ?ss. \<not> rank_gt (LEVEL_RANK (level s)) (LEVEL_RANK (level v))"
    "length (evidence v) \<le> 3"
    using merge_all_None[OF ne] by blast
  have me: "merged_entry base inc k = v"
    by (simp add: merged_entry_def base_lookup_None[OF assms(1)] v(1))
  show "skill_key (merged_entry base inc k) = k" using me v(2) hd by simp
  show "length (evidence (merged_entry base inc k)) \<le> 3" using me v(5) by simp
  show "\<exists>s \<in> set inc. skill_key s = k \<and> level s = level (merged_entry base inc k)"
    using me v(3) by auto
  show "\<forall>s \<in> set inc. skill_key s = k \<longrightarrow>
           \<not> rank_gt (LEVEL_RANK (level s)) (LEVEL_RANK (level (merged_entry base inc k)))"
    using me v(4) by auto
  show "merged_entry base inc k = the (merge_all None ?ss)"
    using me v(1) by simp
qed

lemma merged_entry_key:
  assumes "k \<in> set (map skill_key (base @ inc))"
  shows "skill_key (merged_entry base inc k) = k"
    and "length (evidence (merged_entry base inc k)) \<le> 3"
proof -
  show "skill_key (merged_entry base inc k) = k"
  proof (cases "k \<in> skill_key ` set base")
    case True
    then obtain b where "b \<in> set base" "skill_key b = k"
      "map_of (rev (base_entries base)) k = Some (b\<lparr>evidence := take 3 (evidence b)\<rparr>)"
      using base_lookup_Some[of k base] by blast
    then show ?thesis by (rule merged_entry_from_base(1))
  next
    case False
    moreover have "k \<in> skill_key ` set inc" using assms False by auto
    ultimately show ?thesis by (rule merged_entry_new(1))
  qed
  show "length (evidence (merged_entry base inc k)) \<le> 3"
  proof (cases "k \<in> skill_key ` set base")
    case True
    then obtain b where "b \<in> set base" "skill_key b = k"
      "map_of (rev (base_entries base)) k = Some (b\<lparr>evidence := take 3 (evidence b)\<rparr>)"
      using base_lookup_Some[of k base] by blast
    then show ?thesis by (rule merged_entry_from_base(3))
  next
    case False
    moreover have "k \<in> skill_key ` set inc" using assms False by auto
    ultimately show ?thesis by (rule merged_entry_new(2))
  qed
qed

lemma mergeSkills_keys:
  "map skill_key (mergeSkills base inc) = take 120 (new_Set (map skill_key (base @ inc)))"
proof -
  let ?ks = "take 120 (new_Set (map skill_key (base @ inc)))"
  have "map (\<lambda>k. skill_key (merged_entry base inc k)) ?ks = map (\<lambda>k. k) ?ks"
  proof (rule map_cong[OF refl])
    fix k assume "k \<in> set ?ks"
    then have "k \<in> set (new_Set (map skill_key (base @ inc)))" by (rule in_set_takeD)
    then show "skill_key (merged_entry base inc k) = k"
      using merged_entry_key(1)[of k base inc] by simp
  qed
  then show ?thesis by (simp add: mergeSkills_entries comp_def)
qed

lemma mergeSkills_distinct_keys: "distinct (map skill_key (mergeSkills base inc))"
  by (simp add: mergeSkills_keys)

lemma mergeSkills_memberD:
  assumes "m \<in> set (mergeSkills base inc)"
  shows "m = merged_entry base inc (skill_key m)"
    and "skill_key m \<in> set (map skill_key (base @ inc))"
proof -
  obtain k where k: "k \<in> set (take 120 (new_Set (map skill_key (base @ inc))))"
    "m = merged_entry base inc k"
    using assms unfolding mergeSkills_entries by auto
  have kin: "k \<in> set (map skill_key (base @ inc))"
    using in_set_takeD[OF k(1)] by simp
  then have "skill_key m = k" using k(2) merged_entry_key(1) by simp
  then show "m = merged_entry base inc (skill_key m)"
    and "skill_key m \<in> set (map skill_key (base @ inc))"
    using k(2) kin by simp_all
qed

lemma mergeSkills_evidence_length:
  assumes "m \<in> set (mergeSkills base inc)"
  shows "length (evidence m) \<le> 3"
proof -
  have "length (evidence (merged_entry base inc (skill_key m))) \<le> 3"
    using mergeSkills_memberD(2)[OF assms] by (rule merged_entry_key(2))
  then show ?thesis using mergeSkills_memberD(1)[OF assms] by metis
qed

lemma merged_entry_base:
  assumes "k \<in> skill_key ` set base"
  shows "\<exists>b \<in> set base. skill_key b = k
     \<and> name (merged_entry base inc k) = name b
     \<and> (level (merged_entry base inc k) = level b
          \<or> rank_gt (LEVEL_RANK (level (merged_entry base inc k))) (LEVEL_RANK (level b)))
     \<and> (level (merged_entry base inc k) = level b
          \<or> (\<exists>s \<in> set inc. skill_key s = k \<and> level s = level (merged_entry base inc k)))
     \<and> (\<forall>s \<in> set inc. skill_key s = k \<longrightarrow>
           \<not> rank_gt (LEVEL_RANK (level s)) (LEVEL_RANK (level (merged_entry base inc k))))
     \<and> ((\<exists>s \<in> set inc. skill_key s = k) \<longrightarrow> canonical (evidence (merged_entry base inc k)))"
proof -
  obtain b where b: "b \<in> set base" "skill_key b = k"
    "map_of (rev (base_entries base)) k = Some (b\<lparr>evidence := take 3 (evidence b)\<rparr>)"
    using base_lookup_Some[OF assms] by (elim bexE conjE)
  note f = merged_entry_from_base[OF b, of inc]
  show ?thesis
    by (rule bexI[OF _ b(1)]) (intro conjI b(2) f(2) f(4) f(5) f(6) f(7))
qed

lemma merged_entry_distinct_base:
  assumes "distinct (map skill_key base)" and "b \<in> set base"
  shows "name (merged_entry base inc (skill_key b)) = name b"
    and "level (merged_entry base inc (skill_key b)) = level b
          \<or> rank_gt (LEVEL_RANK (level (merged_entry base inc (skill_key b)))) (LEVEL_RANK (level b))"
    and "level (merged_entry base inc (skill_key b)) = level b
          \<or> (\<exists>s \<in> set inc. skill_key s = skill_key b
                \<and> level s = level (merged_entry base inc (skill_key b)))"
    and "\<forall>s \<in> set inc. skill_key s = skill_key b \<longrightarrow>
           \<not> rank_gt (LEVEL_RANK (level s)) (LEVEL_RANK (level (merged_entry base inc (skill_key b))))"
    and "(\<exists>s \<in> set inc. skill_key s = skill_key b)
           \<longrightarrow> canonical (evidence (merged_entry base inc (skill_key b)))"
    and "merged_entry base inc (skill_key b)
           = the (merge_all (Some (b\<lparr>evidence := take 3 (evidence b)\<rparr>))
                    (filter (\<lambda>s. skill_key s = skill_key b) inc))"
proof -
  note l = base_lookup_distinct[OF assms]
  note f = merged_entry_from_base[OF assms(2) refl l, of inc]
  show "name (merged_entry base inc (skill_key b)) = name b" by (rule f(2))
  show "level (merged_entry base inc (skill_key b)) = level b
          \<or> rank_gt (LEVEL_RANK (level (merged_entry base inc (skill_key b)))) (LEVEL_RANK (level b))"
    by (rule f(4))
  show "level (merged_entry base inc (skill_key b)) = level b
          \<or> (\<exists>s \<in> set inc. skill_key s = skill_key b
                \<and> level s = level (merged_entry base inc (skill_key b)))"
    by (rule f(5))
  show "\<forall>s \<in> set inc. skill_key s = skill_key b \<longrightarrow>
           \<not> rank_gt (LEVEL_RANK (level s)) (LEVEL_RANK (level (merged_entry base inc (skill_key b))))"
    by (rule f(6))
  show "(\<exists>s \<in> set inc. skill_key s = skill_key b)
           \<longrightarrow> canonical (evidence (merged_entry base inc (skill_key b)))"
    by (rule f(7))
  show "merged_entry base inc (skill_key b)
           = the (merge_all (Some (b\<lparr>evidence := take 3 (evidence b)\<rparr>))
                    (filter (\<lambda>s. skill_key s = skill_key b) inc))"
    unfolding merged_entry_def l ..
qed

lemma rank_not_gt_chain:
  assumes "\<not> rank_gt (LEVEL_RANK (level s)) (LEVEL_RANK (level m1))"
    and "level m = level m1 \<or> rank_gt (LEVEL_RANK (level m)) (LEVEL_RANK (level m1))"
  shows "\<not> rank_gt (LEVEL_RANK (level s)) (LEVEL_RANK (level m))"
  using assms by (auto dest: rank_gt_trans)

lemma new_Set_absorb: "set ys \<subseteq> set xs \<Longrightarrow> new_Set (xs @ ys) = new_Set xs"
proof (induction ys rule: rev_induct)
  case Nil
  then show ?case by simp
next
  case (snoc y ys)
  have "new_Set (xs @ ys @ [y]) = Set_add y (new_Set (xs @ ys))"
    using new_Set_snoc[of "xs @ ys" y] by simp
  then show ?case using snoc by (simp add: Set_add_def)
qed

lemma length_new_Set: "length (new_Set xs) = card (set xs)"
  by (metis distinct_card distinct_new_Set set_new_Set)

lemma distinct_ids_pairs:
  "distinct (map evidence_id es) \<Longrightarrow> distinct (map (\<lambda>e. (artifact_id e, snippet e)) es)"
proof (induction es)
  case Nil
  then show ?case by simp
next
  case (Cons e es)
  have "(artifact_id e, snippet e) \<notin> (\<lambda>e. (artifact_id e, snippet e)) ` set es"
  proof
    assume "(artifact_id e, snippet e) \<in> (\<lambda>e. (artifact_id e, snippet e)) ` set es"
    then obtain e' where "e' \<in> set es" "artifact_id e' = artifact_id e" "snippet e' = snippet e"
      by auto
    then have "evidence_id e \<in> evidence_id ` set es"
      by (auto simp: evidence_id_def image_iff intro!: bexI[of _ e'])
    then show False using Cons.prems by simp
  qed
  then show ?case using Cons by simp
qed

subsection \<open>The first merge, into the empty list\<close>

lemma first_merge_entry:
  assumes "k \<in> skill_key ` set A"
  shows "skill_key (merged_entry [] A k) = k"
    and "\<exists>s \<in> set A. skill_key s = k \<and> level s = level (merged_entry [] A k)"
    and "\<forall>s \<in> set A. skill_key s = k \<longrightarrow>
           \<not> rank_gt (LEVEL_RANK (level s)) (LEVEL_RANK (level (merged_entry [] A k)))"
    and "length (evidence (merged_entry [] A k)) \<le> 3"
    and "merge_all None (filter (\<lambda>s. skill_key s = k) A) = Some (merged_entry [] A k)"
proof -
  have nb: "k \<notin> skill_key ` set []" by simp
  note f = merged_entry_new[OF nb assms]
  show "skill_key (merged_entry [] A k) = k" by (rule f(1))
  show "\<exists>s \<in> set A. skill_key s = k \<and> level s = level (merged_entry [] A k)" by (rule f(3))
  show "\<forall>s \<in> set A. skill_key s = k \<longrightarrow>
           \<not> rank_gt (LEVEL_RANK (level s)) (LEVEL_RANK (level (merged_entry [] A k)))"
    by (rule f(4))
  show "length (evidence (merged_entry [] A k)) \<le> 3" by (rule f(2))
  have ne: "filter (\<lambda>s. skill_key s = k) A \<noteq> []"
    using assms by (auto simp: filter_empty_conv)
  obtain v where v: "merge_all None (filter (\<lambda>s. skill_key s = k) A) = Some v"
    using merge_all_None[OF ne] by blast
  show "merge_all None (filter (\<lambda>s. skill_key s = k) A) = Some (merged_entry [] A k)"
    unfolding f(5) v by simp
qed

lemma first_merge_member:
  assumes "m1 \<in> set (mergeSkills [] A)"
  shows "skill_key m1 \<in> skill_key ` set A" and "m1 = merged_entry [] A (skill_key m1)"
proof -
  show "skill_key m1 \<in> skill_key ` set A"
    using mergeSkills_memberD(2)[OF assms] by simp
  show "m1 = merged_entry [] A (skill_key m1)"
    by (rule mergeSkills_memberD(1)[OF assms])
qed

lemma second_merge_keys:
  "map skill_key (mergeSkills (mergeSkills [] A) B) = take 120 (uniq (map skill_key (A @ B)))"
proof -
  have "map skill_key (mergeSkills (mergeSkills [] A) B)
      = take 120 (new_Set (map skill_key (mergeSkills [] A) @ map skill_key B))"
    by (simp only: mergeSkills_keys map_append)
  also have "map skill_key (mergeSkills [] A) = take 120 (new_Set (map skill_key A))"
    by (simp only: mergeSkills_keys append_Nil)
  also have "take 120 (new_Set (take 120 (new_Set (map skill_key A)) @ map skill_key B))
      = take 120 (new_Set (map skill_key A @ map skill_key B))"
    by (rule take_new_Set_take)
  finally show ?thesis by (simp only: uniq_def map_append)
qed

lemma second_merge_new_key:
  assumes "m \<in> set (mergeSkills (mergeSkills [] A) B)"
    and "skill_key m \<notin> skill_key ` set (mergeSkills [] A)"
  shows "skill_key m \<notin> skill_key ` set A"
proof
  let ?K1 = "map skill_key (mergeSkills [] A)"
  let ?KA = "map skill_key A"
  assume a: "skill_key m \<in> skill_key ` set A"
  have K1: "?K1 = take 120 (new_Set ?KA)" by (simp only: mergeSkills_keys append_Nil)
  have "skill_key m \<in> set (new_Set ?KA)" using a by simp
  moreover have "skill_key m \<notin> set (take 120 (new_Set ?KA))"
    using assms(2) unfolding K1[symmetric] by simp
  ultimately have "take 120 (new_Set ?KA) \<noteq> new_Set ?KA" by metis
  then have "length (new_Set ?KA) > 120" by (metis take_all not_le_imp_less)
  then have len: "length ?K1 = 120" unfolding K1 by simp
  have d: "distinct ?K1" by (rule mergeSkills_distinct_keys)
  obtain zs where zs: "new_Set (?K1 @ map skill_key B) = ?K1 @ zs"
    using new_Set_append_distinct[OF d] by blast
  have "map skill_key (mergeSkills (mergeSkills [] A) B)
      = take 120 (new_Set (?K1 @ map skill_key B))"
    by (simp only: mergeSkills_keys map_append)
  also have "\<dots> = ?K1" unfolding zs using len by simp
  finally have "set (map skill_key (mergeSkills (mergeSkills [] A) B)) = set ?K1" by simp
  then have "skill_key m \<in> set ?K1" using assms(1) by auto
  then show False using assms(2) by simp
qed

lemma second_merge_entry:
  assumes "m \<in> set (mergeSkills (mergeSkills [] A) B)"
  shows "\<exists>s \<in> set (A @ B). skill_key s = skill_key m \<and> level s = level m"
    and "\<forall>s \<in> set (A @ B). skill_key s = skill_key m \<longrightarrow>
           \<not> rank_gt (LEVEL_RANK (level s)) (LEVEL_RANK (level m))"
    and "\<forall>m1 \<in> set (mergeSkills [] A). skill_key m1 = skill_key m \<longrightarrow>
           \<not> rank_gt (LEVEL_RANK (level m1)) (LEVEL_RANK (level m))"
proof -
  let ?M1 = "mergeSkills [] A"
  let ?k = "skill_key m"
  have m: "m = merged_entry ?M1 B ?k" by (rule mergeSkills_memberD(1)[OF assms])
  have kin: "?k \<in> set (map skill_key (?M1 @ B))" by (rule mergeSkills_memberD(2)[OF assms])
  have "(\<exists>s \<in> set (A @ B). skill_key s = ?k \<and> level s = level m)
      \<and> (\<forall>s \<in> set (A @ B). skill_key s = ?k \<longrightarrow>
           \<not> rank_gt (LEVEL_RANK (level s)) (LEVEL_RANK (level m)))
      \<and> (\<forall>m1 \<in> set ?M1. skill_key m1 = ?k \<longrightarrow>
           \<not> rank_gt (LEVEL_RANK (level m1)) (LEVEL_RANK (level m)))"
  proof (cases "?k \<in> skill_key ` set ?M1")
    case True
    obtain m1 where m1: "m1 \<in> set ?M1" "skill_key m1 = ?k"
      and rel: "level (merged_entry ?M1 B ?k) = level m1
          \<or> rank_gt (LEVEL_RANK (level (merged_entry ?M1 B ?k))) (LEVEL_RANK (level m1))"
      and mem: "level (merged_entry ?M1 B ?k) = level m1
          \<or> (\<exists>s \<in> set B. skill_key s = ?k \<and> level s = level (merged_entry ?M1 B ?k))"
      and mx: "\<forall>s \<in> set B. skill_key s = ?k \<longrightarrow>
           \<not> rank_gt (LEVEL_RANK (level s)) (LEVEL_RANK (level (merged_entry ?M1 B ?k)))"
      using merged_entry_base[OF True, of B] by (elim bexE conjE)
    have rel': "level m = level m1 \<or> rank_gt (LEVEL_RANK (level m)) (LEVEL_RANK (level m1))"
      using rel m by metis
    have mem': "level m = level m1 \<or> (\<exists>s \<in> set B. skill_key s = ?k \<and> level s = level m)"
      using mem m by metis
    have mx': "\<forall>s \<in> set B. skill_key s = ?k \<longrightarrow>
           \<not> rank_gt (LEVEL_RANK (level s)) (LEVEL_RANK (level m))"
      using mx m by metis
    have kA: "?k \<in> skill_key ` set A" using first_merge_member(1)[OF m1(1)] m1(2) by simp
    have m1e: "m1 = merged_entry [] A ?k" using first_merge_member(2)[OF m1(1)] m1(2) by simp
    have a_mem: "\<exists>s \<in> set A. skill_key s = ?k \<and> level s = level m1"
      using first_merge_entry(2)[OF kA] m1e by simp
    have a_mx: "\<forall>s \<in> set A. skill_key s = ?k \<longrightarrow>
           \<not> rank_gt (LEVEL_RANK (level s)) (LEVEL_RANK (level m1))"
      using first_merge_entry(3)[OF kA] m1e by simp
    have 1: "\<exists>s \<in> set (A @ B). skill_key s = ?k \<and> level s = level m"
      using mem' a_mem by auto
    have 2: "\<forall>s \<in> set (A @ B). skill_key s = ?k \<longrightarrow>
           \<not> rank_gt (LEVEL_RANK (level s)) (LEVEL_RANK (level m))"
    proof (intro ballI impI)
      fix s assume s: "s \<in> set (A @ B)" "skill_key s = ?k"
      show "\<not> rank_gt (LEVEL_RANK (level s)) (LEVEL_RANK (level m))"
      proof (cases "s \<in> set B")
        case True
        then show ?thesis using mx' s(2) by blast
      next
        case False
        then have "s \<in> set A" using s(1) by simp
        then have "\<not> rank_gt (LEVEL_RANK (level s)) (LEVEL_RANK (level m1))"
          using a_mx s(2) by blast
        then show ?thesis using rel' by (rule rank_not_gt_chain)
      qed
    qed
    have 3: "\<forall>m1' \<in> set ?M1. skill_key m1' = ?k \<longrightarrow>
           \<not> rank_gt (LEVEL_RANK (level m1')) (LEVEL_RANK (level m))"
    proof (intro ballI impI)
      fix m1' assume "m1' \<in> set ?M1" "skill_key m1' = ?k"
      then have "m1' = m1" using first_merge_member(2)[of m1' A] m1e by simp
      moreover have "\<not> rank_gt (LEVEL_RANK (level m1)) (LEVEL_RANK (level m))"
        using rel' by (auto dest: rank_gt_asym)
      ultimately show "\<not> rank_gt (LEVEL_RANK (level m1')) (LEVEL_RANK (level m))" by simp
    qed
    show ?thesis using 1 2 3 by (intro conjI)
  next
    case False
    have kB: "?k \<in> skill_key ` set B" using kin False by auto
    note f = merged_entry_new[OF False kB]
    have notA: "?k \<notin> skill_key ` set A" by (rule second_merge_new_key[OF assms False])
    have 1: "\<exists>s \<in> set (A @ B). skill_key s = ?k \<and> level s = level m"
      using f(3) m by (metis Un_iff set_append)
    have b_mx: "\<forall>s \<in> set B. skill_key s = ?k \<longrightarrow>
           \<not> rank_gt (LEVEL_RANK (level s)) (LEVEL_RANK (level m))"
      using f(4) m by metis
    have 2: "\<forall>s \<in> set (A @ B). skill_key s = ?k \<longrightarrow>
           \<not> rank_gt (LEVEL_RANK (level s)) (LEVEL_RANK (level m))"
    proof (intro ballI impI)
      fix s assume s: "s \<in> set (A @ B)" "skill_key s = ?k"
      have "s \<notin> set A"
      proof
        assume "s \<in> set A"
        then have "skill_key s \<in> skill_key ` set A" by (rule imageI)
        then show False using notA s(2) by simp
      qed
      then have "s \<in> set B" using s(1) by simp
      then show "\<not> rank_gt (LEVEL_RANK (level s)) (LEVEL_RANK (level m))"
        using b_mx s(2) by blast
    qed
    have 3: "\<forall>m1 \<in> set ?M1. skill_key m1 = ?k \<longrightarrow>
           \<not> rank_gt (LEVEL_RANK (level m1)) (LEVEL_RANK (level m))"
    proof (intro ballI impI)
      fix m1 assume m1: "m1 \<in> set ?M1" "skill_key m1 = ?k"
      have "skill_key m1 \<in> skill_key ` set ?M1" using m1(1) by (rule imageI)
      then show "\<not> rank_gt (LEVEL_RANK (level m1)) (LEVEL_RANK (level m))"
        using False m1(2) by simp
    qed
    show ?thesis using 1 2 3 by (intro conjI)
  qed
  then show "\<exists>s \<in> set (A @ B). skill_key s = skill_key m \<and> level s = level m"
    and "\<forall>s \<in> set (A @ B). skill_key s = skill_key m \<longrightarrow>
           \<not> rank_gt (LEVEL_RANK (level s)) (LEVEL_RANK (level m))"
    and "\<forall>m1 \<in> set (mergeSkills [] A). skill_key m1 = skill_key m \<longrightarrow>
           \<not> rank_gt (LEVEL_RANK (level m1)) (LEVEL_RANK (level m))"
    by blast+
qed

lemma mergeSkills_length: "length (mergeSkills base inc) \<le> 120"
  by (simp add: mergeSkills_def)

text \<open>
  C2. The claim: for all skill lists \<open>A\<close> and \<open>B\<close>, merging \<open>A\<close> into the empty list and
  then \<open>B\<close> into the result gives exactly one skill for every normalized name of \<open>A\<close> or
  \<open>B\<close>, with the level of highest rank among the entries of that name, never lower than
  the level merged before, and with at most 3 evidence entries. The code returns at most 120
  skills (\<open>.slice(0, 120)\<close>), so names beyond the first 120 are missing. What holds: the
  normalized names of the result are the first 120 distinct normalized names of \<open>A\<close> followed
  by \<open>B\<close>, in the order of their first occurrence, each once, and all of them when there
  are at most 120; the level of a returned skill is the level of an entry of that name, no
  entry of that name has a greater rank, nor has the skill of that name in the first merge;
  and its evidence has at most 3 entries.
\<close>

theorem mergeSkills_twice:
  "map skill_key (mergeSkills (mergeSkills [] A) B) = take 120 (uniq (map skill_key (A @ B)))
   \<and> distinct (map skill_key (mergeSkills (mergeSkills [] A) B))
   \<and> (length (uniq (map skill_key (A @ B))) \<le> 120 \<longrightarrow>
        set (map skill_key (mergeSkills (mergeSkills [] A) B)) = set (map skill_key (A @ B)))
   \<and> (\<forall>m \<in> set (mergeSkills (mergeSkills [] A) B).
          length (evidence m) \<le> 3
        \<and> (\<exists>s \<in> set (A @ B). skill_key s = skill_key m \<and> level s = level m)
        \<and> (\<forall>s \<in> set (A @ B). skill_key s = skill_key m \<longrightarrow>
              \<not> rank_gt (LEVEL_RANK (level s)) (LEVEL_RANK (level m)))
        \<and> (\<forall>m1 \<in> set (mergeSkills [] A). skill_key m1 = skill_key m \<longrightarrow>
              \<not> rank_gt (LEVEL_RANK (level m1)) (LEVEL_RANK (level m))))"
proof (intro conjI impI ballI)
  show k: "map skill_key (mergeSkills (mergeSkills [] A) B) = take 120 (uniq (map skill_key (A @ B)))"
    by (rule second_merge_keys)
  show "distinct (map skill_key (mergeSkills (mergeSkills [] A) B))"
    by (rule mergeSkills_distinct_keys)
  show "set (map skill_key (mergeSkills (mergeSkills [] A) B)) = set (map skill_key (A @ B))"
    if "length (uniq (map skill_key (A @ B))) \<le> 120"
    unfolding k using that by (simp add: uniq_def)
next
  fix m assume m: "m \<in> set (mergeSkills (mergeSkills [] A) B)"
  show "length (evidence m) \<le> 3" by (rule mergeSkills_evidence_length[OF m])
  show "\<exists>s \<in> set (A @ B). skill_key s = skill_key m \<and> level s = level m"
    by (rule second_merge_entry(1)[OF m])
  show "\<not> rank_gt (LEVEL_RANK (level s)) (LEVEL_RANK (level m))"
    if "s \<in> set (A @ B)" "skill_key s = skill_key m" for s
    using second_merge_entry(2)[OF m] that by blast
  show "\<not> rank_gt (LEVEL_RANK (level m1)) (LEVEL_RANK (level m))"
    if "m1 \<in> set (mergeSkills [] A)" "skill_key m1 = skill_key m" for m1
    using second_merge_entry(3)[OF m] that by blast
qed

theorem mergeSkills_twice_witness:
  "map skill_key (mergeSkills (mergeSkills [] example_skills_A) example_skills_B) = [''python'', ''sql'']
   \<and> set (map skill_key (mergeSkills (mergeSkills [] example_skills_A) example_skills_B))
       = set (map skill_key (example_skills_A @ example_skills_B))
   \<and> map level (mergeSkills (mergeSkills [] example_skills_A) example_skills_B)
       = [''advanced'', ''intermediate'']
   \<and> length (evidence (hd (mergeSkills (mergeSkills [] example_skills_A) example_skills_B))) \<le> 3
   \<and> \<not> rank_gt (LEVEL_RANK (level (hd example_skills_B)))
         (LEVEL_RANK (level (hd (mergeSkills (mergeSkills [] example_skills_A) example_skills_B))))"
proof -
  let ?M = "mergeSkills (mergeSkills [] example_skills_A) example_skills_B"
  note T = mergeSkills_twice[of example_skills_A example_skills_B]
  note T1 = conjunct1[OF T]
  note T3 = conjunct1[OF conjunct2[OF conjunct2[OF T]]]
  note T4 = conjunct2[OF conjunct2[OF conjunct2[OF T]]]
  have u: "take 120 (uniq (map skill_key (example_skills_A @ example_skills_B))) = [''python'', ''sql'']"
    by code_simp
  have l: "length (uniq (map skill_key (example_skills_A @ example_skills_B))) \<le> 120"
    by code_simp
  have ne: "?M \<noteq> []" by code_simp
  have hdM: "hd ?M \<in> set ?M" using ne by (rule hd_in_set)
  have hdB: "hd example_skills_B \<in> set (example_skills_A @ example_skills_B)"
    by (simp add: example_skills_B_def)
  have k: "skill_key (hd example_skills_B) = skill_key (hd ?M)" by code_simp
  have lv: "map level ?M = [''advanced'', ''intermediate'']" by code_simp
  have 1: "map skill_key ?M = [''python'', ''sql'']" using T1 u by (rule trans)
  have 2: "set (map skill_key ?M) = set (map skill_key (example_skills_A @ example_skills_B))"
    using T3 l by (rule mp)
  note m = bspec[OF T4 hdM]
  have 3: "length (evidence (hd ?M)) \<le> 3" by (rule conjunct1[OF m])
  have 4: "\<not> rank_gt (LEVEL_RANK (level (hd example_skills_B))) (LEVEL_RANK (level (hd ?M)))"
    using bspec[OF conjunct1[OF conjunct2[OF conjunct2[OF m]]] hdB] k by (rule mp)
  show ?thesis using 1 2 lv 3 4 by (intro conjI)
qed

theorem mergeSkills_cap_counterexample:
  "length (uniq (map skill_key many_skills)) = 121
   \<and> length (mergeSkills (mergeSkills [] many_skills) []) < 121
   \<and> set (map skill_key (mergeSkills (mergeSkills [] many_skills) []))
       \<noteq> set (map skill_key (many_skills @ []))"
proof -
  let ?M = "mergeSkills (mergeSkills [] many_skills) []"
  have n: "length (uniq (map skill_key many_skills)) = 121" by code_simp
  have l: "length ?M \<le> 120" by (rule mergeSkills_length)
  have "card (set (map skill_key ?M)) \<le> length (map skill_key ?M)" by (rule card_length)
  then have c1: "card (set (map skill_key ?M)) \<le> 120" using l by simp
  have c2: "card (set (map skill_key (many_skills @ []))) = 121"
    using n by (simp add: uniq_def length_new_Set)
  have "set (map skill_key ?M) \<noteq> set (map skill_key (many_skills @ []))"
    using c1 c2 by (metis Suc_n_not_le_n eval_nat_numeral(3) numeral_le_iff semiring_norm(69,71,73) le_trans not_less_eq_eq)
  then show ?thesis using n l by simp
qed

subsection \<open>Two merges in either order\<close>

lemma distinct_key_eq:
  assumes "distinct (map skill_key xs)" "x \<in> set xs" "y \<in> set xs" "skill_key x = skill_key y"
  shows "x = y"
  using assms by (meson distinct_map inj_on_eq_iff)

lemma truncate_short: "length (evidence m) \<le> 3 \<Longrightarrow> m\<lparr>evidence := take 3 (evidence m)\<rparr> = m"
  by simp

lemma merge_maximal:
  assumes "distinct (map skill_key base)" and "m \<in> set (mergeSkills base inc)"
  shows "\<forall>s \<in> set (base @ inc). skill_key s = skill_key m \<longrightarrow>
           \<not> rank_gt (LEVEL_RANK (level s)) (LEVEL_RANK (level m))"
    and "\<exists>s \<in> set (base @ inc). skill_key s = skill_key m \<and> level s = level m"
proof -
  let ?k = "skill_key m"
  have m: "m = merged_entry base inc ?k" by (rule mergeSkills_memberD(1)[OF assms(2)])
  have kin: "?k \<in> set (map skill_key (base @ inc))" by (rule mergeSkills_memberD(2)[OF assms(2)])
  have "(\<forall>s \<in> set (base @ inc). skill_key s = ?k \<longrightarrow>
           \<not> rank_gt (LEVEL_RANK (level s)) (LEVEL_RANK (level m)))
      \<and> (\<exists>s \<in> set (base @ inc). skill_key s = ?k \<and> level s = level m)"
  proof (cases "?k \<in> skill_key ` set base")
    case True
    then obtain b where b: "b \<in> set base" "skill_key b = ?k" by auto
    note f = merged_entry_distinct_base[OF assms(1) b(1), of inc]
    have me: "merged_entry base inc ?k = m" using m by simp
    have rel: "level m = level b \<or> rank_gt (LEVEL_RANK (level m)) (LEVEL_RANK (level b))"
      using f(2) unfolding b(2) me .
    have mem: "level m = level b \<or> (\<exists>s \<in> set inc. skill_key s = ?k \<and> level s = level m)"
      using f(3) unfolding b(2) me .
    have mx: "\<forall>s \<in> set inc. skill_key s = ?k \<longrightarrow>
           \<not> rank_gt (LEVEL_RANK (level s)) (LEVEL_RANK (level m))"
      using f(4) unfolding b(2) me .
    have nb: "\<not> rank_gt (LEVEL_RANK (level b)) (LEVEL_RANK (level m))"
      using rel by (auto dest: rank_gt_asym)
    have 1: "\<forall>s \<in> set (base @ inc). skill_key s = ?k \<longrightarrow>
           \<not> rank_gt (LEVEL_RANK (level s)) (LEVEL_RANK (level m))"
    proof (intro ballI impI)
      fix s assume s: "s \<in> set (base @ inc)" "skill_key s = ?k"
      show "\<not> rank_gt (LEVEL_RANK (level s)) (LEVEL_RANK (level m))"
      proof (cases "s \<in> set base")
        case True
        then have "s = b" using distinct_key_eq[OF assms(1) _ b(1)] s(2) b(2) by simp
        then show ?thesis using nb by simp
      next
        case False
        then have "s \<in> set inc" using s(1) by simp
        then show ?thesis using mx s(2) by blast
      qed
    qed
    have 2: "\<exists>s \<in> set (base @ inc). skill_key s = ?k \<and> level s = level m"
      using mem b by auto
    show ?thesis using 1 2 by (intro conjI)
  next
    case False
    have kI: "?k \<in> skill_key ` set inc" using kin False by auto
    note f = merged_entry_new[OF False kI]
    have mem: "\<exists>s \<in> set inc. skill_key s = ?k \<and> level s = level m"
      using f(3) m by metis
    have mx: "\<forall>s \<in> set inc. skill_key s = ?k \<longrightarrow>
           \<not> rank_gt (LEVEL_RANK (level s)) (LEVEL_RANK (level m))"
      using f(4) m by metis
    have 1: "\<forall>s \<in> set (base @ inc). skill_key s = ?k \<longrightarrow>
           \<not> rank_gt (LEVEL_RANK (level s)) (LEVEL_RANK (level m))"
    proof (intro ballI impI)
      fix s assume s: "s \<in> set (base @ inc)" "skill_key s = ?k"
      have "s \<notin> set base"
      proof
        assume "s \<in> set base"
        then have "skill_key s \<in> skill_key ` set base" by (rule imageI)
        then show False using False s(2) by simp
      qed
      then have "s \<in> set inc" using s(1) by simp
      then show "\<not> rank_gt (LEVEL_RANK (level s)) (LEVEL_RANK (level m))"
        using mx s(2) by blast
    qed
    have 2: "\<exists>s \<in> set (base @ inc). skill_key s = ?k \<and> level s = level m"
      using mem by auto
    show ?thesis using 1 2 by (intro conjI)
  qed
  then show "\<forall>s \<in> set (base @ inc). skill_key s = skill_key m \<longrightarrow>
           \<not> rank_gt (LEVEL_RANK (level s)) (LEVEL_RANK (level m))"
    and "\<exists>s \<in> set (base @ inc). skill_key s = skill_key m \<and> level s = level m"
    by blast+
qed

lemma merge_commute_rank:
  assumes "distinct (map skill_key A)"
    and "m \<in> set (mergeSkills A B)" and "m' \<in> set (mergeSkills B' A')"
    and "set (B' @ A') = set (A @ B)" and "distinct (map skill_key B')"
    and "skill_key m = skill_key m'"
  shows "\<not> rank_gt (LEVEL_RANK (level m')) (LEVEL_RANK (level m))"
proof -
  obtain s where s: "s \<in> set (B' @ A')" "skill_key s = skill_key m'" "level s = level m'"
    using merge_maximal(2)[OF assms(5,3)] by blast
  have "s \<in> set (A @ B)" using s(1) by (simp only: assms(4))
  then have "\<not> rank_gt (LEVEL_RANK (level s)) (LEVEL_RANK (level m))"
    using merge_maximal(1)[OF assms(1,2)] s(2) assms(6) by simp
  then show ?thesis using s(3) by simp
qed

lemma merged_into_existing:
  assumes "m \<in> set (mergeSkills base inc)"
    and "skill_key m \<in> skill_key ` set base" and "skill_key m \<in> skill_key ` set inc"
  shows "length (evidence m) \<le> 3 \<and> distinct (map (\<lambda>e. (artifact_id e, snippet e)) (evidence m))"
proof -
  let ?k = "skill_key m"
  have m: "m = merged_entry base inc ?k" by (rule mergeSkills_memberD(1)[OF assms(1)])
  have ex: "\<exists>s \<in> set inc. skill_key s = ?k" using assms(3) by auto
  have "(\<exists>s \<in> set inc. skill_key s = ?k) \<longrightarrow> canonical (evidence (merged_entry base inc ?k))"
    using merged_entry_base[OF assms(2), of inc] by (elim bexE conjE)
  then have "canonical (evidence (merged_entry base inc ?k))" using ex by (rule mp)
  then have "canonical (evidence m)" using m by metis
  then have "distinct (map (\<lambda>e. (artifact_id e, snippet e)) (evidence m))"
    by (simp add: canonical_def distinct_ids_pairs)
  then show ?thesis using mergeSkills_evidence_length[OF assms(1)] by simp
qed

subsection \<open>Merging the same list again\<close>

lemma again_keys:
  "take 120 (new_Set (map skill_key (mergeSkills [] A @ A))) = take 120 (new_Set (map skill_key A))"
proof -
  have "map skill_key (mergeSkills [] A @ A)
      = take 120 (new_Set (map skill_key A)) @ map skill_key A"
    by (simp only: map_append mergeSkills_keys append_Nil)
  then have "take 120 (new_Set (map skill_key (mergeSkills [] A @ A)))
      = take 120 (new_Set (map skill_key A @ map skill_key A))"
    by (simp only: take_new_Set_take)
  then show ?thesis by (simp add: new_Set_absorb)
qed

lemma again_entries:
  "mergeSkills (mergeSkills [] A) A
     = map (merged_entry (mergeSkills [] A) A) (take 120 (new_Set (map skill_key A)))"
  by (simp only: mergeSkills_entries[of "mergeSkills [] A" A] again_keys)

lemma first_entries:
  "mergeSkills [] A = map (merged_entry [] A) (take 120 (new_Set (map skill_key A)))"
  by (simp only: mergeSkills_entries[of "[]" A] append_Nil)

lemma again_entry:
  assumes "k \<in> set (take 120 (new_Set (map skill_key A)))"
  shows "name (merged_entry (mergeSkills [] A) A k) = name (merged_entry [] A k)"
    and "level (merged_entry (mergeSkills [] A) A k) = level (merged_entry [] A k)"
    and "list_all (\<lambda>s. canonical (evidence s)) A \<longrightarrow>
           merged_entry (mergeSkills [] A) A k = merged_entry [] A k"
proof -
  let ?M1 = "mergeSkills [] A"
  let ?m1 = "merged_entry [] A k"
  let ?m2 = "merged_entry ?M1 A k"
  let ?ss = "filter (\<lambda>s. skill_key s = k) A"
  have kA: "k \<in> skill_key ` set A" using in_set_takeD[OF assms] by simp
  have m1in: "?m1 \<in> set ?M1"
    unfolding first_entries using assms by (simp only: set_map) (rule imageI)
  have key1: "skill_key ?m1 = k" by (rule first_merge_entry(1)[OF kA])
  have d: "distinct (map skill_key ?M1)" by (rule mergeSkills_distinct_keys)
  note f = merged_entry_distinct_base[OF d m1in, of A, unfolded key1]
  show "name ?m2 = name ?m1" by (rule f(1))
  have mx1: "\<forall>s \<in> set A. skill_key s = k \<longrightarrow>
           \<not> rank_gt (LEVEL_RANK (level s)) (LEVEL_RANK (level ?m1))"
    by (rule first_merge_entry(3)[OF kA])
  show "level ?m2 = level ?m1"
  proof (rule ccontr)
    assume ne: "level ?m2 \<noteq> level ?m1"
    then have gt: "rank_gt (LEVEL_RANK (level ?m2)) (LEVEL_RANK (level ?m1))"
      using f(2) by blast
    obtain s where s: "s \<in> set A" "skill_key s = k" "level s = level ?m2"
      using f(3) ne by blast
    have "\<not> rank_gt (LEVEL_RANK (level s)) (LEVEL_RANK (level ?m1))"
      using mx1 s(1,2) by blast
    then show False using gt s(3) by simp
  qed
  show "list_all (\<lambda>s. canonical (evidence s)) A \<longrightarrow> ?m2 = ?m1"
  proof
    assume c: "list_all (\<lambda>s. canonical (evidence s)) A"
    have ne: "?ss \<noteq> []" using kA by (auto simp: filter_empty_conv)
    have can: "\<forall>s \<in> set ?ss. canonical (evidence s)"
      using c by (simp add: list_all_iff)
    have none: "merge_all None ?ss = Some ?m1" by (rule first_merge_entry(5)[OF kA])
    have "merge_all (Some ?m1) ?ss = Some ?m1" by (rule merge_all_absorb[OF ne can none])
    moreover have "?m1\<lparr>evidence := take 3 (evidence ?m1)\<rparr> = ?m1"
      by (rule truncate_short[OF first_merge_entry(4)[OF kA]])
    ultimately show "?m2 = ?m1" using f(6) by simp
  qed
qed

text \<open>
  C3. The claim: merging \<open>A\<close> again into the merge of \<open>A\<close> with the empty list gives the
  same skills; merging \<open>A\<close> with \<open>B\<close> gives the skills of merging \<open>B\<close> with \<open>A\<close>, up to
  their order; and a skill merged with itself never has more than 3 evidence entries nor the
  same pair of artifact and snippet twice. The two merges \<open>A\<close> with \<open>B\<close> and \<open>B\<close> with \<open>A\<close>
  differ in more than the order: a merged skill keeps the name and the other fields of the
  skill that came first, and its evidence starts with the evidence of that skill, cut at 3
  entries. What holds: merging \<open>A\<close> again changes no name and no level, and changes nothing
  at all when every evidence list of \<open>A\<close> is \<open>canonical\<close>; every skill of the second merge,
  and every skill that was merged into one already present, has at most 3 evidence entries
  and no pair of artifact and snippet twice; and for lists \<open>A\<close> and \<open>B\<close> that each name a
  skill once, the two orders of merging give the same normalized names (when there are at
  most 120) and, for each name, levels of which neither outranks the other.
\<close>

theorem mergeSkills_again:
  "(list_all (\<lambda>s. canonical (evidence s)) A \<longrightarrow>
      mergeSkills (mergeSkills [] A) A = mergeSkills [] A)
   \<and> map name (mergeSkills (mergeSkills [] A) A) = map name (mergeSkills [] A)
   \<and> map level (mergeSkills (mergeSkills [] A) A) = map level (mergeSkills [] A)
   \<and> (\<forall>m \<in> set (mergeSkills (mergeSkills [] A) A).
         length (evidence m) \<le> 3
         \<and> distinct (map (\<lambda>e. (artifact_id e, snippet e)) (evidence m)))
   \<and> (\<forall>m \<in> set (mergeSkills base inc).
         skill_key m \<in> skill_key ` set base \<and> skill_key m \<in> skill_key ` set inc \<longrightarrow>
         length (evidence m) \<le> 3
         \<and> distinct (map (\<lambda>e. (artifact_id e, snippet e)) (evidence m)))
   \<and> (distinct (map skill_key A) \<and> distinct (map skill_key B) \<longrightarrow>
        (length (uniq (map skill_key (A @ B))) \<le> 120 \<longrightarrow>
           set (map skill_key (mergeSkills A B)) = set (map skill_key (mergeSkills B A)))
        \<and> (\<forall>m \<in> set (mergeSkills A B). \<forall>m' \<in> set (mergeSkills B A).
              skill_key m = skill_key m' \<longrightarrow>
              \<not> rank_gt (LEVEL_RANK (level m)) (LEVEL_RANK (level m'))
              \<and> \<not> rank_gt (LEVEL_RANK (level m')) (LEVEL_RANK (level m))))"
proof (intro conjI)
  let ?K1 = "take 120 (new_Set (map skill_key A))"
  show "list_all (\<lambda>s. canonical (evidence s)) A \<longrightarrow>
      mergeSkills (mergeSkills [] A) A = mergeSkills [] A"
  proof
    assume c: "list_all (\<lambda>s. canonical (evidence s)) A"
    have "map (merged_entry (mergeSkills [] A) A) ?K1 = map (merged_entry [] A) ?K1"
      by (rule map_cong[OF refl]) (use again_entry(3) c in blast)
    then show "mergeSkills (mergeSkills [] A) A = mergeSkills [] A"
      by (simp only: again_entries first_entries[symmetric])
  qed
  have "map (\<lambda>k. name (merged_entry (mergeSkills [] A) A k)) ?K1
      = map (\<lambda>k. name (merged_entry [] A k)) ?K1"
    by (rule map_cong[OF refl]) (rule again_entry(1))
  then show "map name (mergeSkills (mergeSkills [] A) A) = map name (mergeSkills [] A)"
    unfolding again_entries by (subst (2) first_entries) (simp add: comp_def)
  have "map (\<lambda>k. level (merged_entry (mergeSkills [] A) A k)) ?K1
      = map (\<lambda>k. level (merged_entry [] A k)) ?K1"
    by (rule map_cong[OF refl]) (rule again_entry(2))
  then show "map level (mergeSkills (mergeSkills [] A) A) = map level (mergeSkills [] A)"
    unfolding again_entries by (subst (2) first_entries) (simp add: comp_def)
  show "\<forall>m \<in> set (mergeSkills (mergeSkills [] A) A).
         length (evidence m) \<le> 3
         \<and> distinct (map (\<lambda>e. (artifact_id e, snippet e)) (evidence m))"
  proof
    fix m assume m: "m \<in> set (mergeSkills (mergeSkills [] A) A)"
    have "map skill_key (mergeSkills (mergeSkills [] A) A) = map skill_key (mergeSkills [] A)"
      by (simp only: mergeSkills_keys[of "mergeSkills [] A" A] again_keys mergeSkills_keys[of "[]" A] append_Nil)
    then have "set (map skill_key (mergeSkills (mergeSkills [] A) A)) = set (map skill_key (mergeSkills [] A))"
      by simp
    then have k1: "skill_key m \<in> skill_key ` set (mergeSkills [] A)"
      using m by auto
    then obtain m1 where "m1 \<in> set (mergeSkills [] A)" "skill_key m1 = skill_key m" by auto
    then have k2: "skill_key m \<in> skill_key ` set A"
      using first_merge_member(1)[of m1 A] by simp
    show "length (evidence m) \<le> 3
         \<and> distinct (map (\<lambda>e. (artifact_id e, snippet e)) (evidence m))"
      by (rule merged_into_existing[OF m k1 k2])
  qed
  show "\<forall>m \<in> set (mergeSkills base inc).
         skill_key m \<in> skill_key ` set base \<and> skill_key m \<in> skill_key ` set inc \<longrightarrow>
         length (evidence m) \<le> 3
         \<and> distinct (map (\<lambda>e. (artifact_id e, snippet e)) (evidence m))"
    using merged_into_existing by blast
  show "distinct (map skill_key A) \<and> distinct (map skill_key B) \<longrightarrow>
        (length (uniq (map skill_key (A @ B))) \<le> 120 \<longrightarrow>
           set (map skill_key (mergeSkills A B)) = set (map skill_key (mergeSkills B A)))
        \<and> (\<forall>m \<in> set (mergeSkills A B). \<forall>m' \<in> set (mergeSkills B A).
              skill_key m = skill_key m' \<longrightarrow>
              \<not> rank_gt (LEVEL_RANK (level m)) (LEVEL_RANK (level m'))
              \<and> \<not> rank_gt (LEVEL_RANK (level m')) (LEVEL_RANK (level m)))"
  proof (intro impI conjI ballI; elim conjE)
    assume len: "length (uniq (map skill_key (A @ B))) \<le> 120"
    have eq: "length (new_Set (map skill_key (B @ A))) = length (new_Set (map skill_key (A @ B)))"
      by (simp add: length_new_Set Un_commute)
    have "set (map skill_key (mergeSkills A B)) = set (map skill_key (A @ B))"
      unfolding mergeSkills_keys using len by (simp add: uniq_def)
    moreover have "set (map skill_key (mergeSkills B A)) = set (map skill_key (B @ A))"
      unfolding mergeSkills_keys using len eq by (simp add: uniq_def)
    ultimately show "set (map skill_key (mergeSkills A B)) = set (map skill_key (mergeSkills B A))"
      by auto
  next
    fix m m'
    assume d: "distinct (map skill_key A)" "distinct (map skill_key B)"
      and m: "m \<in> set (mergeSkills A B)" "m' \<in> set (mergeSkills B A)"
      and k: "skill_key m = skill_key m'"
    have s: "set (A @ B) = set (B @ A)" by auto
    show "\<not> rank_gt (LEVEL_RANK (level m)) (LEVEL_RANK (level m'))"
      by (rule merge_commute_rank[OF d(2) m(2) m(1) s d(1) k[symmetric]])
    show "\<not> rank_gt (LEVEL_RANK (level m')) (LEVEL_RANK (level m))"
      by (rule merge_commute_rank[OF d(1) m(1) m(2) s[symmetric] d(2) k])
  qed
qed

theorem mergeSkills_again_witness:
  "mergeSkills (mergeSkills [] example_skills_B) example_skills_B = mergeSkills [] example_skills_B
   \<and> map level (mergeSkills (mergeSkills [] example_skills_B) example_skills_B)
       = map level (mergeSkills [] example_skills_B)
   \<and> length (evidence (hd (mergeSkills (mergeSkills [] example_skills_B) example_skills_B))) \<le> 3
   \<and> distinct (map (\<lambda>e. (artifact_id e, snippet e))
         (evidence (hd (mergeSkills (mergeSkills [] example_skills_B) example_skills_B))))
   \<and> set (map skill_key (mergeSkills example_skills_A example_skills_B))
       = set (map skill_key (mergeSkills example_skills_B example_skills_A))
   \<and> \<not> rank_gt (LEVEL_RANK (level (hd (mergeSkills example_skills_A example_skills_B))))
         (LEVEL_RANK (level (hd (mergeSkills example_skills_B example_skills_A))))
   \<and> \<not> rank_gt (LEVEL_RANK (level (hd (mergeSkills example_skills_B example_skills_A))))
         (LEVEL_RANK (level (hd (mergeSkills example_skills_A example_skills_B))))"
proof -
  let ?A = example_skills_A and ?B = example_skills_B
  let ?M2 = "mergeSkills (mergeSkills [] ?B) ?B"
  note T = mergeSkills_again[of ?B "mergeSkills [] ?B" ?B ?A]
  note T1 = conjunct1[OF T]
  note T3 = conjunct1[OF conjunct2[OF conjunct2[OF T]]]
  note T4 = conjunct1[OF conjunct2[OF conjunct2[OF conjunct2[OF T]]]]
  note U = mergeSkills_again[of ?A "mergeSkills [] ?A" ?A ?B]
  note U6 = conjunct2[OF conjunct2[OF conjunct2[OF conjunct2[OF conjunct2[OF U]]]]]
  have c: "list_all (\<lambda>s. canonical (evidence s)) ?B" by code_simp
  have 1: "?M2 = mergeSkills [] ?B" using T1 c by (rule mp)
  have ne: "?M2 \<noteq> []" by code_simp
  have hd2: "hd ?M2 \<in> set ?M2" using ne by (rule hd_in_set)
  note e = bspec[OF T4 hd2]
  have d: "distinct (map skill_key ?A) \<and> distinct (map skill_key ?B)" by code_simp
  note V = mp[OF U6 d]
  have l: "length (uniq (map skill_key (?A @ ?B))) \<le> 120" by code_simp
  have 5: "set (map skill_key (mergeSkills ?A ?B)) = set (map skill_key (mergeSkills ?B ?A))"
    using conjunct1[OF V] l by (rule mp)
  have neAB: "mergeSkills ?A ?B \<noteq> []" and neBA: "mergeSkills ?B ?A \<noteq> []" by code_simp+
  have hAB: "hd (mergeSkills ?A ?B) \<in> set (mergeSkills ?A ?B)" using neAB by (rule hd_in_set)
  have hBA: "hd (mergeSkills ?B ?A) \<in> set (mergeSkills ?B ?A)" using neBA by (rule hd_in_set)
  have k: "skill_key (hd (mergeSkills ?A ?B)) = skill_key (hd (mergeSkills ?B ?A))" by code_simp
  note r = mp[OF bspec[OF bspec[OF conjunct2[OF V] hAB] hBA] k]
  show ?thesis
    using 1 T3 conjunct1[OF e] conjunct2[OF e] 5 conjunct1[OF r] conjunct2[OF r] by (intro conjI)
qed

theorem mergeSkills_again_counterexample:
  "mergeSkills example_skills_C example_skills_D = example_skills_C
   \<and> mergeSkills example_skills_D example_skills_C = example_skills_D
   \<and> set (mergeSkills example_skills_C example_skills_D)
       \<noteq> set (mergeSkills example_skills_D example_skills_C)
   \<and> map (\<lambda>s. set (evidence s)) (mergeSkills example_skills_C example_skills_D)
       \<noteq> map (\<lambda>s. set (evidence s)) (mergeSkills example_skills_D example_skills_C)
   \<and> map name (mergeSkills example_skills_A example_skills_B) = [''Python'', ''SQL'']
   \<and> map name (mergeSkills example_skills_B example_skills_A) = ['' python '', ''SQL'']
   \<and> map (\<lambda>s. map artifact_id (evidence s)) (mergeSkills example_skills_A example_skills_B)
       = [[''p1'', ''p2''], [''p2'']]
   \<and> map (\<lambda>s. map artifact_id (evidence s)) (mergeSkills example_skills_B example_skills_A)
       = [[''p2'', ''p1''], [''p2'']]"
  by code_simp

text \<open>
  Merging a list again does change a skill whose evidence is not \<open>canonical\<close>: the skill
  was stored as it came, and the second merge removes the repeated evidence item.
\<close>

lemma mergeSkills_repeated_evidence:
  "mergeSkills [] [repeated_evidence_skill] = [repeated_evidence_skill]
   \<and> mergeSkills (mergeSkills [] [repeated_evidence_skill]) [repeated_evidence_skill]
       = [repeated_evidence_skill\<lparr>evidence := [hd (evidence repeated_evidence_skill)]\<rparr>]
   \<and> mergeSkills (mergeSkills [] [repeated_evidence_skill]) [repeated_evidence_skill]
       \<noteq> mergeSkills [] [repeated_evidence_skill]"
  by code_simp

end
